theory Spec2Isabelle
  imports Main "HOL-Library.Char_ord" "HOL-Library.List_Lexorder" "HOL-Library.Multiset"
begin

section \<open>The customer importer: counting e-mail addresses per domain\<close>

text \<open>
  A shallow embedding of \<^verbatim>\<open>customer_importer.go\<close>. Go strings are byte sequences and
  are compared bytewise, so a string is a \<^typ>\<open>char list\<close> under the lexicographic order
  of \<^theory_text>\<open>List_Lexorder\<close> over the byte order of \<^theory_text>\<open>Char_ord\<close>.
  Line numbers and column indices are Go \<^verbatim>\<open>int\<close>s that only count upwards from zero;
  they are naturals here. Counts are \<^typ>\<open>int\<close>.
\<close>

subsection \<open>Errors\<close>

text \<open>
  The package's sentinel errors, \<^verbatim>\<open>csv.ErrFieldCount\<close> of the standard library, and
  \<^verbatim>\<open>csv.ParseError{Line, Column, Err}\<close>, which wraps another error. The error of
  \<^verbatim>\<open>determineEmailColumnIndex\<close> is built from the text of \<^verbatim>\<open>ErrFieldNotExists\<close> and
  the field name, which is the constructor's argument. \<open>RuntimePanic\<close> stands for Go's
  panic on an index out of range; it is not an error value and nothing wraps it.
\<close>

datatype error =
    ErrFieldNotExists string
  | ErrEmailIsNotValid
  | ErrEmailDuplicate
  | ErrEmptyFile
  | ErrNoValidEmailsFound
  | ErrFieldCount
  | ParseError nat nat error
  | RuntimePanic

subsection \<open>The CSV reader\<close>

text \<open>
  \<^verbatim>\<open>encoding/csv\<close> is not part of the repository. Its reader is modelled at the level
  of records: the input is the sequence of records that the tokenizer yields. What the
  records do not tell is where they lie in the file and what the library reports for a
  record of the wrong length; a \<open>Layout\<close> gives both. The reader counts physical lines:
  it skips blank lines, and a quoted field may span several lines, so the line at which
  the record of index \<open>k\<close> (the first has index 0) starts is any number \<open>startLine k\<close>.
  The column of the reader's \<^verbatim>\<open>ErrFieldCount\<close> depends on the version of the library
  (1 since Go 1.17, 0 before); it is \<open>fieldCountColumn\<close>.
\<close>

record Layout =
  startLine :: "nat \<Rightarrow> nat"
  fieldCountColumn :: nat

text \<open>
  The reader's state: the number of records it has read, the records left, the layout of
  the file. \<^verbatim>\<open>csv.NewReader\<close> leaves \<^verbatim>\<open>FieldsPerRecord\<close> at 0; \<^verbatim>\<open>Read\<close> then sets it to
  the number of fields of the first record and answers every later record of another
  length with \<^verbatim>\<open>ParseError{Line, Column, Err: ErrFieldCount}\<close>, at the line where that
  record starts.
\<close>

record Reader =
  FieldsPerRecord :: nat
  numRead :: nat
  input :: "string list list"
  layout :: Layout

datatype read_result = Record "string list" | EOF | ReadError error

definition NewReader :: "Layout \<Rightarrow> string list list \<Rightarrow> Reader" where
  "NewReader env r = \<lparr>FieldsPerRecord = 0, numRead = 0, input = r, layout = env\<rparr>"

definition Read :: "Reader \<Rightarrow> read_result \<times> Reader" where
  "Read r =
     (case input r of
        [] \<Rightarrow> (EOF, r)
      | record # rest \<Rightarrow>
          (let recLine = startLine (layout r) (numRead r);
               r = r\<lparr>numRead := numRead r + 1, input := rest\<rparr> in
           if FieldsPerRecord r > 0 then
             (if length record \<noteq> FieldsPerRecord r
              then (ReadError (ParseError recLine (fieldCountColumn (layout r)) ErrFieldCount), r)
              else (Record record, r))
           else (Record record, r\<lparr>FieldsPerRecord := length record\<rparr>)))"

subsection \<open>The importer's data\<close>

record EmailsByDomainQty =
  Domain :: string
  EmailsCount :: int

record CustomerImporter =
  emailFieldName :: string
  emailColumnIndex :: nat
  domainCounter :: "string \<rightharpoonup> int"
  countedEmails :: "string \<rightharpoonup> bool"
  line :: nat
  reader :: Reader
  skipErrDupEmails :: bool
  skipErrInvalidEmails :: bool

text \<open>
  An \<^verbatim>\<open>Option\<close> is a function that sets a field of the importer. The fields are not
  exported, so the options a caller can pass are the two the package constructs; they are
  the constructors here, and \<open>applyOption\<close> is the call \<^verbatim>\<open>option(&c)\<close>.
\<close>

datatype Option = SkipErrDuplicateEmails | SkipErrInvalidEmails

fun applyOption :: "Option \<Rightarrow> CustomerImporter \<Rightarrow> CustomerImporter" where
  "applyOption SkipErrDuplicateEmails f = f\<lparr>skipErrDupEmails := True\<rparr>"
| "applyOption SkipErrInvalidEmails f = f\<lparr>skipErrInvalidEmails := True\<rparr>"

subsection \<open>E-mail addresses\<close>

text \<open>
  \<^verbatim>\<open>strings.Split(s, sep)\<close> for a separator of one byte, the only way the source calls it
  (\<^verbatim>\<open>"@"\<close>): the substrings between the separators, so one more than there are separators.
  A byte that is not the separator extends the first substring of the rest; the rest never
  splits into no substring at all (lemma \<open>Split_not_Nil\<close>).
\<close>

fun Split :: "string \<Rightarrow> char \<Rightarrow> string list" where
  "Split [] sep = [[]]"
| "Split (c # cs) sep =
     (if c = sep then [] # Split cs sep
      else (case Split cs sep of
              part # parts \<Rightarrow> (c # part) # parts
            | [] \<Rightarrow> [[c]]))"

text \<open>
  Modelled from the spec: \<^verbatim>\<open>IsValidEmail\<close> is called by \<^verbatim>\<open>getDomainNameFromEmail\<close> and
  tested by \<^verbatim>\<open>TestIsValidEmail\<close>, but its body is not among the sources. The spec's rule:
  exactly one \<^verbatim>\<open>@\<close> character, a non-empty local part before it, a non-empty domain part
  after it.
\<close>

definition IsValidEmail :: "string \<Rightarrow> bool" where
  "IsValidEmail email \<longleftrightarrow>
     count_list email CHR ''@'' = 1 \<and>
     takeWhile (\<lambda>c. c \<noteq> CHR ''@'') email \<noteq> [] \<and>
     drop 1 (dropWhile (\<lambda>c. c \<noteq> CHR ''@'') email) \<noteq> []"

definition getDomainNameFromEmail :: "string \<Rightarrow> error + string" where
  "getDomainNameFromEmail email =
     (if \<not> IsValidEmail email then Inl ErrEmailIsNotValid
      else (case Split email CHR ''@'' of
              _ # domainName # _ \<Rightarrow> Inr domainName
            | _ \<Rightarrow> Inl RuntimePanic))"

subsection \<open>The importer's methods\<close>

text \<open>The method \<^verbatim>\<open>error\<close>: a \<^verbatim>\<open>csv.ParseError\<close> at the importer's line counter and e-mail column.\<close>

definition error :: "CustomerImporter \<Rightarrow> error \<Rightarrow> error" where
  "error c err = ParseError (line c) (emailColumnIndex c) err"

definition handleDuplicates :: "CustomerImporter \<Rightarrow> string \<Rightarrow> error + CustomerImporter" where
  "handleDuplicates c email =
     (case countedEmails c email of
        Some _ \<Rightarrow> Inl ErrEmailDuplicate
      | None \<Rightarrow> Inr (c\<lparr>countedEmails := (countedEmails c)(email \<mapsto> True)\<rparr>))"

text \<open>
  \<^verbatim>\<open>c.domainCounter[domainName]++\<close>: a key that is absent reads as 0.
\<close>

definition increment :: "(string \<rightharpoonup> int) \<Rightarrow> string \<Rightarrow> (string \<rightharpoonup> int)" where
  "increment m k = m(k \<mapsto> (case m k of None \<Rightarrow> 0 | Some n \<Rightarrow> n) + 1)"

definition updateDomainCounter :: "CustomerImporter \<Rightarrow> string list \<Rightarrow> error + CustomerImporter" where
  "updateDomainCounter c record =
     (if \<not> emailColumnIndex c < length record then Inl RuntimePanic
      else
        let email = record ! emailColumnIndex c in
        case handleDuplicates c email of
          Inl err \<Rightarrow> if skipErrDupEmails c then Inr c else Inl err
        | Inr c \<Rightarrow>
            (case getDomainNameFromEmail email of
               Inl err \<Rightarrow> if skipErrInvalidEmails c then Inr c else Inl err
             | Inr domainName \<Rightarrow>
                 Inr (c\<lparr>domainCounter := increment (domainCounter c) domainName\<rparr>)))"

text \<open>The loop of \<^verbatim>\<open>determineEmailColumnIndex\<close> over the header, from position \<open>index\<close> on.\<close>

fun headerLoop :: "CustomerImporter \<Rightarrow> string list \<Rightarrow> nat \<Rightarrow> error + CustomerImporter" where
  "headerLoop c [] index = Inl (ErrFieldNotExists (emailFieldName c))"
| "headerLoop c (r # rs) index =
     (if r = emailFieldName c then Inr (c\<lparr>emailColumnIndex := index\<rparr>)
      else headerLoop c rs (index + 1))"

definition determineEmailColumnIndex :: "CustomerImporter \<Rightarrow> string list \<Rightarrow> error + CustomerImporter" where
  "determineEmailColumnIndex c headerRecord = headerLoop c headerRecord 0"

lemma reader_headerLoop:
  "headerLoop c rs i = Inr c' \<Longrightarrow> reader c' = reader c"
  by (induction rs arbitrary: i) (auto split: if_splits)

lemma reader_updateDomainCounter:
  "updateDomainCounter c rec = Inr c' \<Longrightarrow> reader c' = reader c"
  by (auto simp: updateDomainCounter_def handleDuplicates_def Let_def
      split: if_splits option.splits sum.splits)

lemma input_Read:
  "Read r = (Record rec, r') \<Longrightarrow> length (input r') < length (input r)"
  by (auto simp: Read_def Let_def split: list.splits if_splits)

text \<open>
  The loop of \<^verbatim>\<open>parse\<close>. Each turn reads one record, so the loop ends when the input
  does. \<^verbatim>\<open>c.line\<close> grows by one with every call of \<^verbatim>\<open>Read\<close>: it counts the records,
  not the lines of the file. An error of the reader is returned as it is. A panic unwinds
  through \<^verbatim>\<open>parse\<close> as it is.
\<close>

function parse :: "CustomerImporter \<Rightarrow> error + CustomerImporter" where
  "parse c0 =
     (let c = c0\<lparr>line := line c0 + 1\<rparr> in
      case Read (reader c) of
        (EOF, r) \<Rightarrow> if line c = 1 then Inl (error c ErrEmptyFile) else Inr c
      | (ReadError err, r) \<Rightarrow> Inl err
      | (Record record, r) \<Rightarrow>
          (let c = c\<lparr>reader := r\<rparr> in
           if line c = 1 then
             (case determineEmailColumnIndex c record of
                Inl err \<Rightarrow> Inl (error c err)
              | Inr c \<Rightarrow> parse c)
           else
             (case updateDomainCounter c record of
                Inl err \<Rightarrow> if err = RuntimePanic then Inl RuntimePanic else Inl (error c err)
              | Inr c \<Rightarrow> parse c)))"
  by pat_completeness auto
termination
proof (relation "measure (\<lambda>c. length (input (reader c)))")
  show "wf (measure (\<lambda>c. length (input (reader c))))" by simp
next
  fix c0 c x r rec c' x2
  assume "c = c0\<lparr>line := line c0 + 1\<rparr>" "(x, r) = Read (reader c)" "x = Record rec"
    "c' = c\<lparr>reader := r\<rparr>" "line c' = 1" "determineEmailColumnIndex c' rec = Inr x2"
  then show "(x2, c0) \<in> measure (\<lambda>c. length (input (reader c)))"
    using input_Read [of "reader c0" rec r] reader_headerLoop [of c' rec 0 x2]
    by (simp add: determineEmailColumnIndex_def)
next
  fix c0 c x r rec c' x2
  assume "c = c0\<lparr>line := line c0 + 1\<rparr>" "(x, r) = Read (reader c)" "x = Record rec"
    "c' = c\<lparr>reader := r\<rparr>" "line c' \<noteq> 1" "updateDomainCounter c' rec = Inr x2"
  then show "(x2, c0) \<in> measure (\<lambda>c. length (input (reader c)))"
    using input_Read [of "reader c0" rec r] reader_updateDomainCounter [of c' rec x2]
    by simp
qed

text \<open>
  \<^verbatim>\<open>getResult\<close> ranges over the map in an order Go leaves open, and \<^verbatim>\<open>sort.Sort\<close> then
  orders the slice by \<^verbatim>\<open>Less\<close>, the order \<open><\<close> of the domains. The keys of a map are
  distinct, so the sorted slice is the same for every order of the range and although
  \<^verbatim>\<open>sort.Sort\<close> is not stable: the keys in ascending order, each with its count.
\<close>

definition getResult :: "CustomerImporter \<Rightarrow> error + EmailsByDomainQty list" where
  "getResult c =
     (let result = map (\<lambda>domain. \<lparr>Domain = domain, EmailsCount = the (domainCounter c domain)\<rparr>)
                     (sorted_list_of_set (dom (domainCounter c)))
      in if length result < 1 then Inl (error c ErrNoValidEmailsFound) else Inr result)"

text \<open>
  \<^verbatim>\<open>Import\<close>: the importer it sets up (the reader over the input, the field name, two
  empty maps, the options applied in their order), then \<^verbatim>\<open>parse\<close>, then \<^verbatim>\<open>getResult\<close>.
  The stream that Go passes as \<^verbatim>\<open>r\<close> is here the sequence of records \<open>r\<close> that the reader
  yields from it, with the layout \<open>env\<close> of the file.
\<close>

definition newImporter :: "Layout \<Rightarrow> string list list \<Rightarrow> string \<Rightarrow> Option list \<Rightarrow> CustomerImporter" where
  "newImporter env r fieldName options =
     fold applyOption options
       \<lparr>emailFieldName = fieldName, emailColumnIndex = 0, domainCounter = Map.empty,
        countedEmails = Map.empty, line = 0, reader = NewReader env r,
        skipErrDupEmails = False, skipErrInvalidEmails = False\<rparr>"

definition Import :: "Layout \<Rightarrow> string list list \<Rightarrow> string \<Rightarrow> Option list \<Rightarrow> error + EmailsByDomainQty list" where
  "Import env r fieldName options =
     (case parse (newImporter env r fieldName options) of
        Inl err \<Rightarrow> Inl err
      | Inr c \<Rightarrow> getResult c)"

subsection \<open>Notions used in the statements\<close>

text \<open>
  The position of the first field of a header that equals the field name: the index that
  the loop of \<^verbatim>\<open>determineEmailColumnIndex\<close> stops at.
\<close>

definition columnOf :: "string \<Rightarrow> string list \<Rightarrow> nat" where
  "columnOf fieldName headerRecord = length (takeWhile (\<lambda>f. f \<noteq> fieldName) headerRecord)"

text \<open>The importer with other records left to read; used to compare runs.\<close>

definition feed :: "CustomerImporter \<Rightarrow> string list list \<Rightarrow> CustomerImporter" where
  "feed c xs = c\<lparr>reader := (reader c)\<lparr>input := xs\<rparr>\<rparr>"

text \<open>The substring of an e-mail address that follows its first \<^verbatim>\<open>@\<close>.\<close>

definition domainOf :: "string \<Rightarrow> string" where
  "domainOf email = drop 1 (dropWhile (\<lambda>c. c \<noteq> CHR ''@'') email)"

text \<open>
  Layouts of example files: every record on one line and no blank line, read by the
  library of Go 1.17 or later, or by an older one; and a file whose second line is blank,
  so that the first data row is on line 3.
\<close>

definition oneRecordPerLine :: Layout where
  "oneRecordPerLine = \<lparr>startLine = (\<lambda>k. k + 1), fieldCountColumn = 1\<rparr>"

definition oneRecordPerLineOld :: Layout where
  "oneRecordPerLineOld = \<lparr>startLine = (\<lambda>k. k + 1), fieldCountColumn = 0\<rparr>"

definition blankSecondLine :: Layout where
  "blankSecondLine = \<lparr>startLine = (\<lambda>k. if k = 0 then 1 else k + 2), fieldCountColumn = 1\<rparr>"

text \<open>An importer in the middle of a run over a one-column file, nothing counted yet.\<close>

definition exampleImporter :: CustomerImporter where
  "exampleImporter =
     \<lparr>emailFieldName = ''email'', emailColumnIndex = 0, domainCounter = Map.empty,
      countedEmails = Map.empty, line = 2,
      reader = \<lparr>FieldsPerRecord = 1, numRead = 2, input = [], layout = oneRecordPerLine\<rparr>,
      skipErrDupEmails = False, skipErrInvalidEmails = False\<rparr>"

text \<open>
  An importer between two turns of the loop of \<^verbatim>\<open>parse\<close>, the header read: the reader
  expects \<open>n\<close> fields, the e-mail column lies within them, and the reader has read as
  many records as the importer's line counter says.
\<close>

definition midRun :: "nat \<Rightarrow> CustomerImporter \<Rightarrow> bool" where
  "midRun n c \<longleftrightarrow>
     0 < line c \<and> 0 < n \<and> FieldsPerRecord (reader c) = n \<and> emailColumnIndex c < n \<and>
     numRead (reader c) = line c"

text \<open>The importer after \<^verbatim>\<open>c.line++\<close> and a successful \<^verbatim>\<open>Read\<close> that leaves \<open>rest\<close>.\<close>

definition advance :: "CustomerImporter \<Rightarrow> string list list \<Rightarrow> CustomerImporter" where
  "advance c rest =
     c\<lparr>line := line c + 1,
       reader := (reader c)\<lparr>numRead := numRead (reader c) + 1, input := rest\<rparr>\<rparr>"

text \<open>The importer that \<^verbatim>\<open>Import\<close> builds, once the header is read and the column found.\<close>

definition afterHeader :: "Layout \<Rightarrow> string list \<Rightarrow> string list list \<Rightarrow> string \<Rightarrow> Option list \<Rightarrow> CustomerImporter" where
  "afterHeader env header rows fieldName options =
     \<lparr>emailFieldName = fieldName, emailColumnIndex = columnOf fieldName header,
      domainCounter = Map.empty, countedEmails = Map.empty, line = 1,
      reader = \<lparr>FieldsPerRecord = length header, numRead = 1, input = rows, layout = env\<rparr>,
      skipErrDupEmails = (SkipErrDuplicateEmails \<in> set options),
      skipErrInvalidEmails = (SkipErrInvalidEmails \<in> set options)\<rparr>"

text \<open>Every count held by a domain counter is at least 1.\<close>

definition positive :: "(string \<rightharpoonup> int) \<Rightarrow> bool" where
  "positive m \<longleftrightarrow> (\<forall>d v. m d = Some v \<longrightarrow> 1 \<le> v)"

text \<open>The importer after the header and one row with the address of the spec's example.\<close>

definition seenOnce :: "bool \<Rightarrow> CustomerImporter" where
  "seenOnce skipDup =
     \<lparr>emailFieldName = ''email'', emailColumnIndex = 0,
      domainCounter = [''github.io'' \<mapsto> 1],
      countedEmails = [''mhernandez0@github.io'' \<mapsto> True], line = 3,
      reader = \<lparr>FieldsPerRecord = 1, numRead = 2, input = [], layout = oneRecordPerLine\<rparr>,
      skipErrDupEmails = skipDup, skipErrInvalidEmails = False\<rparr>"

section \<open>Properties\<close>

subsection \<open>Options, header and reader\<close>

declare parse.simps [simp del]

lemma fold_applyOption:
  "fold applyOption options c =
     c\<lparr>skipErrDupEmails := skipErrDupEmails c \<or> SkipErrDuplicateEmails \<in> set options,
       skipErrInvalidEmails := skipErrInvalidEmails c \<or> SkipErrInvalidEmails \<in> set options\<rparr>"
proof (induction options arbitrary: c)
  case Nil
  show ?case by simp
next
  case (Cons option options)
  show ?case by (cases option) (simp_all add: Cons.IH)
qed

lemma newImporter_eq:
  "newImporter env r fieldName options =
     \<lparr>emailFieldName = fieldName, emailColumnIndex = 0, domainCounter = Map.empty,
      countedEmails = Map.empty, line = 0, reader = NewReader env r,
      skipErrDupEmails = (SkipErrDuplicateEmails \<in> set options),
      skipErrInvalidEmails = (SkipErrInvalidEmails \<in> set options)\<rparr>"
  by (simp add: newImporter_def fold_applyOption)

lemma headerLoop_eq:
  "headerLoop c rs k =
     (if emailFieldName c \<in> set rs
      then Inr (c\<lparr>emailColumnIndex := k + columnOf (emailFieldName c) rs\<rparr>)
      else Inl (ErrFieldNotExists (emailFieldName c)))"
  by (induction rs arbitrary: k) (simp_all add: columnOf_def)

lemma parse_Nil:
  "input (reader c) = [] \<Longrightarrow>
   parse c = (if line c = 0 then Inl (ParseError 1 (emailColumnIndex c) ErrEmptyFile)
              else Inr (c\<lparr>line := line c + 1\<rparr>))"
  by (subst parse.simps) (simp add: Read_def error_def)

lemma Read_Cons:
  assumes inp: "input r = rec # rest"
  shows "Read r =
     (if 0 < FieldsPerRecord r \<and> length rec \<noteq> FieldsPerRecord r
      then (ReadError (ParseError (startLine (layout r) (numRead r))
                          (fieldCountColumn (layout r)) ErrFieldCount),
            r\<lparr>numRead := numRead r + 1, input := rest\<rparr>)
      else (Record rec,
            r\<lparr>numRead := numRead r + 1, input := rest, FieldsPerRecord := length rec\<rparr>))"
proof (cases "0 < FieldsPerRecord r")
  case True
  show ?thesis
  proof (cases "length rec = FieldsPerRecord r")
    case True
    then have "r\<lparr>numRead := numRead r + 1, input := rest, FieldsPerRecord := length rec\<rparr> =
               r\<lparr>numRead := numRead r + 1, input := rest\<rparr>"
      by simp
    then show ?thesis using inp True \<open>0 < FieldsPerRecord r\<close>
      by (simp add: Read_def Let_def)
  next
    case False
    then show ?thesis using inp \<open>0 < FieldsPerRecord r\<close>
      by (simp add: Read_def Let_def)
  qed
next
  case False
  then show ?thesis using inp
    by (simp add: Read_def Let_def)
qed

lemma parse_Cons:
  assumes inp: "input (reader c) = rec # rest"
  shows "parse c =
     (if 0 < FieldsPerRecord (reader c) \<and> length rec \<noteq> FieldsPerRecord (reader c)
      then Inl (ParseError (startLine (layout (reader c)) (numRead (reader c)))
                  (fieldCountColumn (layout (reader c))) ErrFieldCount)
      else
        let c1 = c\<lparr>line := line c + 1,
                   reader := (reader c)\<lparr>numRead := numRead (reader c) + 1, input := rest,
                              FieldsPerRecord := length rec\<rparr>\<rparr>
        in if line c = 0 then
             (case determineEmailColumnIndex c1 rec of
                Inl err \<Rightarrow> Inl (ParseError (line c + 1) (emailColumnIndex c) err)
              | Inr c2 \<Rightarrow> parse c2)
           else
             (case updateDomainCounter c1 rec of
                Inl err \<Rightarrow> if err = RuntimePanic then Inl RuntimePanic
                           else Inl (ParseError (line c + 1) (emailColumnIndex c) err)
              | Inr c2 \<Rightarrow> parse c2))"
  by (subst parse.simps) (auto simp add: Read_Cons [OF inp] Let_def error_def split: sum.splits)

subsection \<open>Splitting an address\<close>

lemma Split_not_Nil: "Split s sep \<noteq> []"
  by (induction s) (auto split: list.splits)

lemma Split_no_sep: "sep \<notin> set s \<Longrightarrow> Split s sep = [s]"
  by (induction s) auto

lemma Split_append: "sep \<notin> set l \<Longrightarrow> Split (l @ sep # d) sep = l # Split d sep"
  by (induction l) auto

lemma email_decompose:
  "count_list email CHR ''@'' = 1 \<Longrightarrow>
   email = takeWhile (\<lambda>c. c \<noteq> CHR ''@'') email @ CHR ''@'' # domainOf email \<and>
   CHR ''@'' \<notin> set (domainOf email)"
proof (induction email)
  case Nil
  then show ?case by simp
next
  case (Cons c cs)
  show ?case
  proof (cases "c = CHR ''@''")
    case True
    with Cons.prems have "count_list cs CHR ''@'' = 0" by simp
    then have "CHR ''@'' \<notin> set cs" by (simp add: count_list_0_iff)
    with True show ?thesis by (simp add: domainOf_def)
  next
    case False
    with Cons.prems have "count_list cs CHR ''@'' = 1" by simp
    from Cons.IH [OF this] False show ?thesis by (simp add: domainOf_def)
  qed
qed

lemma takeWhile_sep: "sep \<notin> set l \<Longrightarrow> takeWhile (\<lambda>c. c \<noteq> sep) (l @ sep # d) = l"
  by (induction l) auto

lemma dropWhile_sep: "sep \<notin> set l \<Longrightarrow> dropWhile (\<lambda>c. c \<noteq> sep) (l @ sep # d) = sep # d"
  by (induction l) auto

lemma count_list_append_sep:
  "sep \<notin> set l \<Longrightarrow> sep \<notin> set d \<Longrightarrow> count_list (l @ sep # d) sep = 1"
  by (simp add: count_list_0_iff)

lemma IsValidEmail_iff:
  "IsValidEmail email \<longleftrightarrow>
     (\<exists>l d. email = l @ CHR ''@'' # d \<and> l \<noteq> [] \<and> d \<noteq> [] \<and>
            CHR ''@'' \<notin> set l \<and> CHR ''@'' \<notin> set d)"
proof
  assume v: "IsValidEmail email"
  then have one: "count_list email CHR ''@'' = 1" by (simp add: IsValidEmail_def)
  let ?l = "takeWhile (\<lambda>c. c \<noteq> CHR ''@'') email"
  have "email = ?l @ CHR ''@'' # domainOf email" "CHR ''@'' \<notin> set (domainOf email)"
    using email_decompose [OF one] by simp_all
  moreover have "?l \<noteq> []" "domainOf email \<noteq> []"
    using v by (simp_all add: IsValidEmail_def domainOf_def)
  moreover have "CHR ''@'' \<notin> set ?l"
    by (auto dest: set_takeWhileD)
  ultimately show "\<exists>l d. email = l @ CHR ''@'' # d \<and> l \<noteq> [] \<and> d \<noteq> [] \<and>
            CHR ''@'' \<notin> set l \<and> CHR ''@'' \<notin> set d"
    by blast
next
  assume "\<exists>l d. email = l @ CHR ''@'' # d \<and> l \<noteq> [] \<and> d \<noteq> [] \<and>
            CHR ''@'' \<notin> set l \<and> CHR ''@'' \<notin> set d"
  then obtain l d where e: "email = l @ CHR ''@'' # d" and ne: "l \<noteq> []" "d \<noteq> []"
    and l: "CHR ''@'' \<notin> set l" and d: "CHR ''@'' \<notin> set d"
    by blast
  have "takeWhile (\<lambda>c. c \<noteq> CHR ''@'') email = l"
    unfolding e using l by (rule takeWhile_sep)
  moreover have "dropWhile (\<lambda>c. c \<noteq> CHR ''@'') email = CHR ''@'' # d"
    unfolding e using l by (rule dropWhile_sep)
  ultimately show "IsValidEmail email"
    using ne count_list_append_sep [OF l d] by (simp add: IsValidEmail_def e)
qed

lemma domainOf_append:
  "CHR ''@'' \<notin> set l \<Longrightarrow> domainOf (l @ CHR ''@'' # d) = d"
  by (simp add: domainOf_def dropWhile_sep)

lemma getDomainNameFromEmail_eq:
  "getDomainNameFromEmail email =
     (if IsValidEmail email then Inr (domainOf email) else Inl ErrEmailIsNotValid)"
proof (cases "IsValidEmail email")
  case True
  then obtain l d where e: "email = l @ CHR ''@'' # d"
    and l: "CHR ''@'' \<notin> set l" and d: "CHR ''@'' \<notin> set d"
    unfolding IsValidEmail_iff by blast
  have "Split email CHR ''@'' = [l, d]"
    by (simp add: e Split_append [OF l] Split_no_sep [OF d])
  with True show ?thesis
    by (simp add: getDomainNameFromEmail_def e domainOf_append [OF l])
next
  case False
  then show ?thesis by (simp add: getDomainNameFromEmail_def)
qed

lemma updateDomainCounter_eq:
  assumes "emailColumnIndex c < length rec"
  shows "updateDomainCounter c rec =
     (let email = rec ! emailColumnIndex c in
      if countedEmails c email \<noteq> None then
        (if skipErrDupEmails c then Inr c else Inl ErrEmailDuplicate)
      else if \<not> IsValidEmail email then
        (if skipErrInvalidEmails c
         then Inr (c\<lparr>countedEmails := (countedEmails c)(email \<mapsto> True)\<rparr>)
         else Inl ErrEmailIsNotValid)
      else Inr (c\<lparr>countedEmails := (countedEmails c)(email \<mapsto> True),
                  domainCounter := increment (domainCounter c) (domainOf email)\<rparr>))"
  using assms
  by (auto simp: updateDomainCounter_def handleDuplicates_def getDomainNameFromEmail_eq Let_def
      split: option.splits)

lemma updateDomainCounter_feed:
  "updateDomainCounter (feed c zs) rec =
     (case updateDomainCounter c rec of Inl e \<Rightarrow> Inl e | Inr c' \<Rightarrow> Inr (feed c' zs))"
  by (auto simp: updateDomainCounter_def handleDuplicates_def feed_def Let_def
      split: option.splits sum.splits)

subsection \<open>The loop over the rows\<close>

lemma columnOf_less:
  "name \<in> set hdr \<Longrightarrow> columnOf name hdr < length hdr"
  unfolding columnOf_def by (induction hdr) auto

lemma columnOf_nth:
  "name \<in> set hdr \<Longrightarrow> hdr ! columnOf name hdr = name"
  unfolding columnOf_def by (induction hdr) auto

lemma parse_empty_input:
  "parse (newImporter env [] name opts) = Inl (ParseError 1 0 ErrEmptyFile)"
  by (simp add: parse_Nil newImporter_eq NewReader_def)

lemma parse_header:
  "parse (newImporter env (hdr # rows) name opts) =
     (if name \<in> set hdr then parse (afterHeader env hdr rows name opts)
      else Inl (ParseError 1 0 (ErrFieldNotExists name)))"
  by (subst parse_Cons [where rec = hdr and rest = rows])
    (simp_all add: newImporter_eq NewReader_def determineEmailColumnIndex_def headerLoop_eq
      afterHeader_def)

lemma midRun_afterHeader:
  "name \<in> set hdr \<Longrightarrow> midRun (length hdr) (afterHeader env hdr rows name opts)"
  by (auto simp: midRun_def afterHeader_def columnOf_less)

lemma afterHeader_feed:
  "afterHeader env hdr rows name opts = feed (afterHeader env hdr [] name opts) rows"
  by (simp add: afterHeader_def feed_def)

lemma midRun_feed [simp]: "midRun n (feed c xs) = midRun n c"
  by (simp add: midRun_def feed_def)

lemma input_feed [simp]: "input (reader (feed c xs)) = xs"
  by (simp add: feed_def)

lemma feed_feed [simp]: "feed (feed c xs) ys = feed c ys"
  by (simp add: feed_def)

lemma advance_fields [simp]:
  "emailFieldName (advance c rest) = emailFieldName c"
  "emailColumnIndex (advance c rest) = emailColumnIndex c"
  "domainCounter (advance c rest) = domainCounter c"
  "countedEmails (advance c rest) = countedEmails c"
  "skipErrDupEmails (advance c rest) = skipErrDupEmails c"
  "skipErrInvalidEmails (advance c rest) = skipErrInvalidEmails c"
  "line (advance c rest) = line c + 1"
  "input (reader (advance c rest)) = rest"
  "numRead (reader (advance c rest)) = numRead (reader c) + 1"
  "FieldsPerRecord (reader (advance c rest)) = FieldsPerRecord (reader c)"
  "layout (reader (advance c rest)) = layout (reader c)"
  by (simp_all add: advance_def)

lemma midRun_advance: "midRun n c \<Longrightarrow> midRun n (advance c rest)"
  by (simp add: midRun_def advance_def)

lemma parse_row:
  assumes m: "midRun n c" and inp: "input (reader c) = rec # rest"
  shows "parse c =
     (if length rec \<noteq> n
      then Inl (ParseError (startLine (layout (reader c)) (line c))
                  (fieldCountColumn (layout (reader c))) ErrFieldCount)
      else case updateDomainCounter (advance c rest) rec of
             Inl err \<Rightarrow> Inl (ParseError (line c + 1) (emailColumnIndex c) err)
           | Inr c2 \<Rightarrow> parse c2)"
proof (cases "length rec = n")
  case False
  with m show ?thesis
    by (simp add: parse_Cons [OF inp] midRun_def)
next
  case True
  with m have r: "(reader c)\<lparr>numRead := numRead (reader c) + 1, input := rest,
                    FieldsPerRecord := length rec\<rparr> =
                  (reader c)\<lparr>numRead := numRead (reader c) + 1, input := rest\<rparr>"
    by (simp add: midRun_def)
  from m True have i: "emailColumnIndex (advance c rest) < length rec"
    by (simp add: midRun_def advance_def)
  have np: "updateDomainCounter (advance c rest) rec \<noteq> Inl RuntimePanic"
    by (simp add: updateDomainCounter_eq [OF i] Let_def)
  from m True np show ?thesis
    unfolding parse_Cons [OF inp] r advance_def [symmetric]
    by (auto simp: midRun_def Let_def advance_def [symmetric] split: sum.splits)
qed

lemma dom_increment: "dom (increment m k) = insert k (dom m)"
  by (simp add: increment_def)

lemma positive_increment: "positive m \<Longrightarrow> positive (increment m k)"
  by (fastforce simp: positive_def increment_def split: option.splits if_splits)

lemma updateDomainCounter_fields:
  assumes "updateDomainCounter c rec = Inr c'"
  shows "line c' = line c \<and> reader c' = reader c \<and> emailColumnIndex c' = emailColumnIndex c \<and>
         skipErrDupEmails c' = skipErrDupEmails c \<and>
         skipErrInvalidEmails c' = skipErrInvalidEmails c \<and>
         emailFieldName c' = emailFieldName c"
  using assms
  by (auto simp: updateDomainCounter_def handleDuplicates_def Let_def
      split: if_splits option.splits sum.splits)

lemma updateDomainCounter_maps:
  assumes "updateDomainCounter c rec = Inr c'"
  shows "dom (countedEmails c') = insert (rec ! emailColumnIndex c) (dom (countedEmails c)) \<and>
         (finite (dom (domainCounter c)) \<longrightarrow> finite (dom (domainCounter c'))) \<and>
         (positive (domainCounter c) \<longrightarrow> positive (domainCounter c'))"
proof -
  from assms have i: "emailColumnIndex c < length rec"
    by (auto simp: updateDomainCounter_def split: if_splits)
  from assms show ?thesis
    by (auto simp: updateDomainCounter_eq [OF i] Let_def dom_increment positive_increment
        split: if_splits)
qed

lemma midRun_updateDomainCounter:
  "midRun n c \<Longrightarrow> updateDomainCounter c rec = Inr c' \<Longrightarrow> midRun n c'"
  by (drule updateDomainCounter_fields) (simp add: midRun_def)

lemma parse_rows_Inr:
  assumes "midRun n c" and "input (reader c) = rows" and "parse c = Inr c'"
  shows "line c' = line c + length rows + 1 \<and>
         emailColumnIndex c' = emailColumnIndex c \<and>
         skipErrDupEmails c' = skipErrDupEmails c \<and>
         skipErrInvalidEmails c' = skipErrInvalidEmails c \<and>
         emailFieldName c' = emailFieldName c \<and>
         FieldsPerRecord (reader c') = n \<and>
         numRead (reader c') = line c + length rows \<and>
         input (reader c') = [] \<and>
         layout (reader c') = layout (reader c) \<and>
         (\<forall>r\<in>set rows. length r = n) \<and>
         dom (countedEmails c') =
           dom (countedEmails c) \<union> (\<lambda>r. r ! emailColumnIndex c) ` set rows \<and>
         (finite (dom (domainCounter c)) \<longrightarrow> finite (dom (domainCounter c'))) \<and>
         (positive (domainCounter c) \<longrightarrow> positive (domainCounter c'))"
  using assms
proof (induction rows arbitrary: c)
  case Nil
  then show ?case
    by (auto simp: parse_Nil midRun_def)
next
  case (Cons rec rest)
  note p = parse_row [OF Cons.prems(1,2)]
  from Cons.prems(3) p have len: "length rec = n"
    by (auto split: if_splits)
  with Cons.prems(3) p obtain c2
    where u: "updateDomainCounter (advance c rest) rec = Inr c2" and p2: "parse c2 = Inr c'"
    by (auto split: sum.splits)
  note f = updateDomainCounter_fields [OF u] and m = updateDomainCounter_maps [OF u]
  have m2: "midRun n c2"
    by (rule midRun_updateDomainCounter [OF midRun_advance [OF Cons.prems(1)] u])
  have i2: "input (reader c2) = rest"
    using f by simp
  note ih = Cons.IH [OF m2 i2 p2]
  from f have l2: "line c2 = line c + 1" "emailColumnIndex c2 = emailColumnIndex c"
    "skipErrDupEmails c2 = skipErrDupEmails c" "skipErrInvalidEmails c2 = skipErrInvalidEmails c"
    "emailFieldName c2 = emailFieldName c" "layout (reader c2) = layout (reader c)"
    by simp_all
  from m have d2: "dom (countedEmails c2) = insert (rec ! emailColumnIndex c) (dom (countedEmails c))"
    and fin: "finite (dom (domainCounter c)) \<longrightarrow> finite (dom (domainCounter c2))"
    and pos: "positive (domainCounter c) \<longrightarrow> positive (domainCounter c2)"
    by simp_all
  from ih len fin pos show ?case
    unfolding l2 d2 by auto
qed

lemma updateDomainCounter_dom:
  assumes "updateDomainCounter c rec = Inr c'" and "d \<in> dom (domainCounter c')"
  shows "d \<in> dom (domainCounter c) \<or>
         (IsValidEmail (rec ! emailColumnIndex c) \<and> d = domainOf (rec ! emailColumnIndex c))"
proof -
  from assms(1) have i: "emailColumnIndex c < length rec"
    by (auto simp: updateDomainCounter_def split: if_splits)
  from assms show ?thesis
    by (auto simp: updateDomainCounter_eq [OF i] Let_def increment_def split: if_splits)
qed

lemma parse_rows_dom:
  assumes "midRun n c" and "input (reader c) = rows" and "parse c = Inr c'"
    and "d \<in> dom (domainCounter c')"
  shows "d \<in> dom (domainCounter c) \<or>
         (\<exists>r\<in>set rows. IsValidEmail (r ! emailColumnIndex c) \<and>
                          d = domainOf (r ! emailColumnIndex c))"
  using assms
proof (induction rows arbitrary: c)
  case Nil
  then show ?case
    by (auto simp: parse_Nil midRun_def)
next
  case (Cons rec rest)
  note p = parse_row [OF Cons.prems(1,2)]
  from Cons.prems(3) p have len: "length rec = n"
    by (auto split: if_splits)
  with Cons.prems(3) p obtain c2
    where u: "updateDomainCounter (advance c rest) rec = Inr c2" and p2: "parse c2 = Inr c'"
    by (auto split: sum.splits)
  note f = updateDomainCounter_fields [OF u]
  have m2: "midRun n c2"
    by (rule midRun_updateDomainCounter [OF midRun_advance [OF Cons.prems(1)] u])
  have i2: "input (reader c2) = rest" "emailColumnIndex c2 = emailColumnIndex c"
    using f by simp_all
  from Cons.IH [OF m2 i2(1) p2 Cons.prems(4)]
  have "d \<in> dom (domainCounter c2) \<or>
        (\<exists>r\<in>set rest. IsValidEmail (r ! emailColumnIndex c) \<and>
                         d = domainOf (r ! emailColumnIndex c))"
    unfolding i2 .
  then show ?case
  proof
    assume "d \<in> dom (domainCounter c2)"
    from updateDomainCounter_dom [OF u this] show ?thesis
      by auto
  next
    assume "\<exists>r\<in>set rest. IsValidEmail (r ! emailColumnIndex c) \<and>
                         d = domainOf (r ! emailColumnIndex c)"
    then show ?thesis by auto
  qed
qed

lemma parse_rows_Inl:
  assumes "midRun n c" and "input (reader c) = rows" and "parse c = Inl e"
  shows "\<exists>k<length rows.
           (e = ParseError (startLine (layout (reader c)) (line c + k))
                  (fieldCountColumn (layout (reader c))) ErrFieldCount \<and>
              length (rows ! k) \<noteq> n) \<or>
           (e = ParseError (line c + k + 1) (emailColumnIndex c) ErrEmailIsNotValid \<and>
              \<not> skipErrInvalidEmails c \<and>
              \<not> IsValidEmail (rows ! k ! emailColumnIndex c)) \<or>
           (e = ParseError (line c + k + 1) (emailColumnIndex c) ErrEmailDuplicate \<and>
              \<not> skipErrDupEmails c \<and>
              rows ! k ! emailColumnIndex c \<in>
                dom (countedEmails c) \<union> (\<lambda>r. r ! emailColumnIndex c) ` set (take k rows))"
  using assms
proof (induction rows arbitrary: c)
  case Nil
  then show ?case
    by (auto simp: parse_Nil midRun_def)
next
  case (Cons rec rest)
  let ?i = "emailColumnIndex c"
  note p = parse_row [OF Cons.prems(1,2)]
  show ?case
  proof (cases "length rec = n")
    case False
    with Cons.prems(3) p have "e = ParseError (startLine (layout (reader c)) (line c + 0))
                  (fieldCountColumn (layout (reader c))) ErrFieldCount"
      by simp
    with False show ?thesis
      by (intro exI [of _ 0]) simp
  next
    case len: True
    with Cons.prems(1) have i: "emailColumnIndex (advance c rest) < length rec"
      by (simp add: midRun_def)
    show ?thesis
    proof (cases "updateDomainCounter (advance c rest) rec")
      case (Inl err)
      with Cons.prems(3) p len have e: "e = ParseError (line c + 0 + 1) ?i err"
        by simp
      from Inl have
        "(err = ErrEmailIsNotValid \<and> \<not> skipErrInvalidEmails c \<and> \<not> IsValidEmail (rec ! ?i)) \<or>
         (err = ErrEmailDuplicate \<and> \<not> skipErrDupEmails c \<and> rec ! ?i \<in> dom (countedEmails c))"
        by (auto simp: updateDomainCounter_eq [OF i] Let_def split: if_splits)
      with e show ?thesis
        by (intro exI [of _ 0]) auto
    next
      case (Inr c2)
      with Cons.prems(3) p len have p2: "parse c2 = Inl e"
        by simp
      note f = updateDomainCounter_fields [OF Inr] and m = updateDomainCounter_maps [OF Inr]
      have m2: "midRun n c2"
        by (rule midRun_updateDomainCounter [OF midRun_advance [OF Cons.prems(1)] Inr])
      have i2: "input (reader c2) = rest"
        using f by simp
      from f have l2: "line c2 = line c + 1" "emailColumnIndex c2 = ?i"
        "skipErrDupEmails c2 = skipErrDupEmails c" "skipErrInvalidEmails c2 = skipErrInvalidEmails c"
        "layout (reader c2) = layout (reader c)"
        by simp_all
      from m have d2: "dom (countedEmails c2) = insert (rec ! ?i) (dom (countedEmails c))"
        by simp
      from Cons.IH [OF m2 i2 p2] obtain k where k: "k < length rest"
        and d: "(e = ParseError (startLine (layout (reader c)) (line c + 1 + k))
                  (fieldCountColumn (layout (reader c))) ErrFieldCount \<and>
              length (rest ! k) \<noteq> n) \<or>
           (e = ParseError (line c + 1 + k + 1) ?i ErrEmailIsNotValid \<and>
              \<not> skipErrInvalidEmails c \<and>
              \<not> IsValidEmail (rest ! k ! ?i)) \<or>
           (e = ParseError (line c + 1 + k + 1) ?i ErrEmailDuplicate \<and>
              \<not> skipErrDupEmails c \<and>
              rest ! k ! ?i \<in>
                insert (rec ! ?i) (dom (countedEmails c)) \<union> (\<lambda>r. r ! ?i) ` set (take k rest))"
        unfolding l2 d2 by blast
      from k d show ?thesis
        by (intro exI [of _ "Suc k"]) auto
    qed
  qed
qed

lemma parse_append:
  assumes "midRun n c" and "parse (feed c xs) = Inr c1"
  shows "parse (feed c (xs @ ys)) = parse (feed (c1\<lparr>line := line c1 - 1\<rparr>) ys)"
  using assms
proof (induction xs arbitrary: c)
  case Nil
  from Nil.prems have "c1 = (feed c [])\<lparr>line := line c + 1\<rparr>"
    by (simp add: parse_Nil midRun_def feed_def)
  then show ?case
    by (simp add: feed_def)
next
  case (Cons x xs)
  have m: "midRun n (feed c zs)" for zs
    using Cons.prems(1) by simp
  note p = parse_row [OF m input_feed, of x xs] parse_row [OF m input_feed, of x "xs @ ys"]
  from Cons.prems(2) p(1) have len: "length x = n"
    by (auto split: if_splits)
  let ?C = "advance c []"
  have a: "advance (feed c zs) rest = feed ?C rest" for zs rest
    by (simp add: advance_def feed_def)
  from Cons.prems(2) p(1) len obtain c2
    where u: "updateDomainCounter (feed ?C xs) x = Inr c2" and p2: "parse c2 = Inr c1"
    unfolding a by (auto split: sum.splits)
  from u obtain C2 where U: "updateDomainCounter ?C x = Inr C2" and c2: "c2 = feed C2 xs"
    unfolding updateDomainCounter_feed by (auto split: sum.splits)
  have m2: "midRun n C2"
    by (rule midRun_updateDomainCounter [OF midRun_advance [OF Cons.prems(1)] U])
  from Cons.IH [OF m2 p2 [unfolded c2]]
  have "parse (feed C2 (xs @ ys)) = parse (feed (c1\<lparr>line := line c1 - 1\<rparr>) ys)" .
  moreover have "parse (feed c ((x # xs) @ ys)) = parse (feed C2 (xs @ ys))"
    using p(2) len U unfolding a updateDomainCounter_feed by simp
  ultimately show ?case by simp
qed

lemma fold_increment:
  "fold (\<lambda>d m. increment m d) ds m d =
     (if d \<in> set ds
      then Some ((case m d of None \<Rightarrow> 0 | Some v \<Rightarrow> v) + int (count_list ds d))
      else m d)"
  by (induction ds arbitrary: m) (auto simp: increment_def)

lemma parse_valid_rows:
  assumes "midRun n c" and "input (reader c) = rows"
    and "\<forall>r\<in>set rows. length r = n"
    and "distinct (map (\<lambda>r. r ! emailColumnIndex c) rows)"
    and "\<forall>r\<in>set rows. IsValidEmail (r ! emailColumnIndex c) \<and>
           countedEmails c (r ! emailColumnIndex c) = None"
  shows "\<exists>c'. parse c = Inr c' \<and>
           domainCounter c' =
             fold (\<lambda>d m. increment m d) (map (\<lambda>r. domainOf (r ! emailColumnIndex c)) rows) (domainCounter c)"
  using assms
proof (induction rows arbitrary: c)
  case Nil
  then show ?case
    by (simp add: parse_Nil midRun_def)
next
  case (Cons rec rest)
  let ?i = "emailColumnIndex c"
  let ?c2 = "(advance c rest)\<lparr>countedEmails := (countedEmails c)(rec ! ?i \<mapsto> True),
                domainCounter := increment (domainCounter c) (domainOf (rec ! ?i))\<rparr>"
  from Cons.prems have len: "length rec = n" and v: "IsValidEmail (rec ! ?i)"
    and s: "countedEmails c (rec ! ?i) = None"
    by simp_all
  with Cons.prems(1) have i: "emailColumnIndex (advance c rest) < length rec"
    by (simp add: midRun_def)
  have u: "updateDomainCounter (advance c rest) rec = Inr ?c2"
    using v s by (simp add: updateDomainCounter_eq [OF i] Let_def)
  have p: "parse c = parse ?c2"
    using parse_row [OF Cons.prems(1,2)] len u by simp
  have m2: "midRun n ?c2"
    by (rule midRun_updateDomainCounter [OF midRun_advance [OF Cons.prems(1)] u])
  have i2: "input (reader ?c2) = rest" "emailColumnIndex ?c2 = ?i"
    by simp_all
  have "\<exists>c'. parse ?c2 = Inr c' \<and>
           domainCounter c' =
             fold (\<lambda>d m. increment m d) (map (\<lambda>r. domainOf (r ! emailColumnIndex ?c2)) rest) (domainCounter ?c2)"
  proof (rule Cons.IH [OF m2 i2(1)])
    show "\<forall>r\<in>set rest. length r = n"
      using Cons.prems(3) by simp
    show "distinct (map (\<lambda>r. r ! emailColumnIndex ?c2) rest)"
      using Cons.prems(4) unfolding i2 by simp
    show "\<forall>r\<in>set rest. IsValidEmail (r ! emailColumnIndex ?c2) \<and>
           countedEmails ?c2 (r ! emailColumnIndex ?c2) = None"
      using Cons.prems(4,5) unfolding i2 by (auto simp: image_iff)
  qed
  then show ?case
    unfolding p i2 by simp
qed

section \<open>The claims\<close>

subsection \<open>Validation and the domain of a counted address\<close>

text \<open>
  Claim C2. An e-mail address passes the validation exactly when it is a non-empty local
  part, one \<^verbatim>\<open>@\<close> and a non-empty domain part, with no other \<^verbatim>\<open>@\<close> in either part. A
  row that \<^verbatim>\<open>updateDomainCounter\<close> counts (the domain counter changes) has such an
  address, and the count that is incremented is the one of the part after the \<^verbatim>\<open>@\<close>.
\<close>

theorem valid_email_and_counted_domain:
  "(IsValidEmail email \<longleftrightarrow>
      (\<exists>l d. email = l @ CHR ''@'' # d \<and> l \<noteq> [] \<and> d \<noteq> [] \<and>
             CHR ''@'' \<notin> set l \<and> CHR ''@'' \<notin> set d)) \<and>
   (updateDomainCounter c rec = Inr c' \<and> domainCounter c' \<noteq> domainCounter c \<longrightarrow>
      (\<exists>l d. rec ! emailColumnIndex c = l @ CHR ''@'' # d \<and> l \<noteq> [] \<and> d \<noteq> [] \<and>
             CHR ''@'' \<notin> set l \<and> CHR ''@'' \<notin> set d \<and>
             domainCounter c' = increment (domainCounter c) d))"
proof (intro conjI impI)
  show "IsValidEmail email \<longleftrightarrow>
      (\<exists>l d. email = l @ CHR ''@'' # d \<and> l \<noteq> [] \<and> d \<noteq> [] \<and>
             CHR ''@'' \<notin> set l \<and> CHR ''@'' \<notin> set d)"
    by (rule IsValidEmail_iff)
next
  let ?e = "rec ! emailColumnIndex c"
  assume a: "updateDomainCounter c rec = Inr c' \<and> domainCounter c' \<noteq> domainCounter c"
  then have i: "emailColumnIndex c < length rec"
    by (auto simp: updateDomainCounter_def split: if_splits)
  from a have v: "IsValidEmail ?e" and c': "domainCounter c' = increment (domainCounter c) (domainOf ?e)"
    by (auto simp: updateDomainCounter_eq [OF i] Let_def split: if_splits)
  from v obtain l d where e: "?e = l @ CHR ''@'' # d" and ne: "l \<noteq> []" "d \<noteq> []"
    and l: "CHR ''@'' \<notin> set l" and d: "CHR ''@'' \<notin> set d"
    unfolding IsValidEmail_iff by blast
  have "domainOf ?e = d" by (simp add: e domainOf_append [OF l])
  with c' e ne l d
  show "\<exists>l d. ?e = l @ CHR ''@'' # d \<and> l \<noteq> [] \<and> d \<noteq> [] \<and>
             CHR ''@'' \<notin> set l \<and> CHR ''@'' \<notin> set d \<and>
             domainCounter c' = increment (domainCounter c) d"
    by blast
qed

theorem valid_email_and_counted_domain_witness:
  "IsValidEmail ''email@b.io'' \<and>
   \<not> IsValidEmail ''emailb.io'' \<and>
   updateDomainCounter exampleImporter [''email@b.io''] =
     Inr (exampleImporter\<lparr>countedEmails := [''email@b.io'' \<mapsto> True],
                          domainCounter := [''b.io'' \<mapsto> 1]\<rparr>) \<and>
   [''b.io'' \<mapsto> 1::int] \<noteq> Map.empty \<and>
   (\<exists>l. ''email@b.io'' = l @ CHR ''@'' # ''b.io'') \<and>
   [''b.io'' \<mapsto> 1] = increment Map.empty ''b.io''"
proof -
  let ?c' = "exampleImporter\<lparr>countedEmails := [''email@b.io'' \<mapsto> True],
                          domainCounter := [''b.io'' \<mapsto> 1]\<rparr>"
  have v1: "IsValidEmail ''email@b.io''"
    by (simp add: IsValidEmail_def)
  have v2: "\<not> IsValidEmail ''emailb.io''"
    by (simp add: IsValidEmail_def)
  have u: "updateDomainCounter exampleImporter [''email@b.io''] = Inr ?c'"
    by (simp add: updateDomainCounter_def handleDuplicates_def getDomainNameFromEmail_def
        IsValidEmail_def exampleImporter_def increment_def)
  have n: "domainCounter ?c' \<noteq> domainCounter exampleImporter"
    by (simp add: exampleImporter_def)
  have ne: "[''b.io'' \<mapsto> 1::int] \<noteq> Map.empty"
    by simp
  have "\<exists>l d. [''email@b.io''] ! emailColumnIndex exampleImporter = l @ CHR ''@'' # d \<and>
          l \<noteq> [] \<and> d \<noteq> [] \<and> CHR ''@'' \<notin> set l \<and> CHR ''@'' \<notin> set d \<and>
          domainCounter ?c' = increment (domainCounter exampleImporter) d"
    by (rule valid_email_and_counted_domain
        [of "''email@b.io''" exampleImporter "[''email@b.io'']" ?c', THEN conjunct2, THEN mp,
         OF conjI [OF u n]])
  then obtain l d
    where e: "[''email@b.io''] ! emailColumnIndex exampleImporter = l @ CHR ''@'' # d"
      and l: "CHR ''@'' \<notin> set l"
      and c: "domainCounter ?c' = increment (domainCounter exampleImporter) d"
    by (elim exE conjE)
  from e have e': "''email@b.io'' = l @ CHR ''@'' # d"
    by (simp add: exampleImporter_def)
  have "domainOf ''email@b.io'' = ''b.io''"
    by (simp add: domainOf_def)
  moreover have "domainOf (l @ CHR ''@'' # d) = d"
    by (rule domainOf_append [OF l])
  ultimately have d: "d = ''b.io''"
    by (simp only: e' [symmetric])
  have x: "\<exists>l. ''email@b.io'' = l @ CHR ''@'' # ''b.io''"
  proof (rule exI [of _ l])
    show "''email@b.io'' = l @ CHR ''@'' # ''b.io''"
      using e' unfolding d .
  qed
  have i: "[''b.io'' \<mapsto> 1] = increment Map.empty ''b.io''"
    using c by (simp add: exampleImporter_def d)
  show ?thesis
    by (intro conjI v1 v2 u ne x i)
qed

subsection \<open>Whole runs\<close>

lemma run_facts:
  assumes "parse (newImporter env (hdr # rows) name opts) = Inr c"
  shows "name \<in> set hdr \<and>
         parse (afterHeader env hdr rows name opts) = Inr c \<and>
         line c = length rows + 2 \<and>
         emailColumnIndex c = columnOf name hdr \<and>
         skipErrDupEmails c = (SkipErrDuplicateEmails \<in> set opts) \<and>
         skipErrInvalidEmails c = (SkipErrInvalidEmails \<in> set opts) \<and>
         FieldsPerRecord (reader c) = length hdr \<and>
         numRead (reader c) = length rows + 1 \<and>
         input (reader c) = [] \<and>
         layout (reader c) = env \<and>
         (\<forall>r\<in>set rows. length r = length hdr) \<and>
         dom (countedEmails c) = (\<lambda>r. r ! columnOf name hdr) ` set rows \<and>
         finite (dom (domainCounter c)) \<and>
         positive (domainCounter c)"
proof -
  from assms have n: "name \<in> set hdr" and p: "parse (afterHeader env hdr rows name opts) = Inr c"
    by (auto simp: parse_header split: if_splits)
  have i: "input (reader (afterHeader env hdr rows name opts)) = rows"
    by (simp add: afterHeader_def)
  from parse_rows_Inr [OF midRun_afterHeader [OF n] i p] n p show ?thesis
    by (simp add: afterHeader_def positive_def)
qed

lemma run_prefix:
  assumes "parse (newImporter env (hdr # pre) name opts) = Inr c"
  shows "parse (newImporter env (hdr # pre @ rest) name opts) =
           parse (feed (c\<lparr>line := line c - 1\<rparr>) rest)"
    and "midRun (length hdr) (feed (c\<lparr>line := line c - 1\<rparr>) rest)"
proof -
  note f = run_facts [OF assms]
  then have n: "name \<in> set hdr" by simp
  have "parse (feed (afterHeader env hdr [] name opts) pre) = Inr c"
    using f by (simp flip: afterHeader_feed)
  from parse_append [OF midRun_afterHeader [OF n] this, of rest]
  show "parse (newImporter env (hdr # pre @ rest) name opts) =
           parse (feed (c\<lparr>line := line c - 1\<rparr>) rest)"
    using n by (simp add: parse_header flip: afterHeader_feed)
  show "midRun (length hdr) (feed (c\<lparr>line := line c - 1\<rparr>) rest)"
    unfolding midRun_feed using f columnOf_less [OF n] by (auto simp: midRun_def)
qed

lemma getResult_eq:
  assumes "finite (dom (domainCounter c))"
  shows "getResult c =
     (if domainCounter c = Map.empty
      then Inl (ParseError (line c) (emailColumnIndex c) ErrNoValidEmailsFound)
      else Inr (map (\<lambda>domain. \<lparr>Domain = domain, EmailsCount = the (domainCounter c domain)\<rparr>)
                  (sorted_list_of_set (dom (domainCounter c)))))"
  using assms by (auto simp: getResult_def error_def Let_def)

subsection \<open>Rows of the wrong length\<close>

text \<open>
  Claim C7. When the header and the rows before it have been processed without a failure,
  a data row whose number of fields differs from the header's makes the run fail at once,
  at the line where that row starts, with the reader's \<^verbatim>\<open>ErrFieldCount\<close>. No option changes this: the
  statement holds for every list of options, both skip options included.
\<close>

theorem malformed_record_fails:
  assumes "parse (newImporter env (header # pre) fieldName options) = Inr c"
    and "length row \<noteq> length header"
  shows "Import env (header # pre @ row # post) fieldName options =
           Inl (ParseError (startLine env (length pre + 1)) (fieldCountColumn env) ErrFieldCount)"
proof -
  let ?c = "feed (c\<lparr>line := line c - 1\<rparr>) (row # post)"
  note r = run_prefix [OF assms(1), of "row # post"]
  have "parse ?c = Inl (ParseError (startLine (layout (reader ?c)) (line ?c))
                          (fieldCountColumn (layout (reader ?c))) ErrFieldCount)"
    using assms(2) by (subst parse_row [OF r(2) input_feed]) simp
  moreover have "line ?c = length pre + 1" "layout (reader ?c) = env"
    using run_facts [OF assms(1)] by (simp_all add: feed_def)
  ultimately show ?thesis
    by (simp add: Import_def r(1))
qed

theorem malformed_record_fails_witness:
  "parse (newImporter oneRecordPerLine [[''name'', ''email''], [''a'', ''a@b.io'']] ''email''
            [SkipErrInvalidEmails, SkipErrDuplicateEmails]) =
     Inr \<lparr>emailFieldName = ''email'', emailColumnIndex = 1,
          domainCounter = [''b.io'' \<mapsto> 1], countedEmails = [''a@b.io'' \<mapsto> True], line = 3,
          reader = \<lparr>FieldsPerRecord = 2, numRead = 2, input = [], layout = oneRecordPerLine\<rparr>,
          skipErrDupEmails = True, skipErrInvalidEmails = True\<rparr> \<and>
   length [''b''] \<noteq> length [''name'', ''email''] \<and>
   Import oneRecordPerLine [[''name'', ''email''], [''a'', ''a@b.io''], [''b'']] ''email''
     [SkipErrInvalidEmails, SkipErrDuplicateEmails] = Inl (ParseError 3 1 ErrFieldCount)"
proof -
  have p: "parse (newImporter oneRecordPerLine [[''name'', ''email''], [''a'', ''a@b.io'']] ''email''
            [SkipErrInvalidEmails, SkipErrDuplicateEmails]) =
     Inr \<lparr>emailFieldName = ''email'', emailColumnIndex = 1,
          domainCounter = [''b.io'' \<mapsto> 1], countedEmails = [''a@b.io'' \<mapsto> True], line = 3,
          reader = \<lparr>FieldsPerRecord = 2, numRead = 2, input = [], layout = oneRecordPerLine\<rparr>,
          skipErrDupEmails = True, skipErrInvalidEmails = True\<rparr>"
    by (simp add: parse.simps newImporter_def NewReader_def oneRecordPerLine_def Read_def Let_def
        determineEmailColumnIndex_def updateDomainCounter_def handleDuplicates_def
        getDomainNameFromEmail_def IsValidEmail_def increment_def)
  have l: "length [''b''] \<noteq> length [''name'', ''email'']"
    by simp
  from malformed_record_fails [OF p l, of "[]"]
  have "Import oneRecordPerLine [[''name'', ''email''], [''a'', ''a@b.io''], [''b'']] ''email''
     [SkipErrInvalidEmails, SkipErrDuplicateEmails] = Inl (ParseError 3 1 ErrFieldCount)"
    by (simp add: oneRecordPerLine_def)
  with p l show ?thesis
    by (intro conjI)
qed

lemma Import_Nil:
  "Import env [] name opts = Inl (ParseError 1 0 ErrEmptyFile)"
  by (simp add: Import_def parse_empty_input)

lemma Import_no_field:
  "name \<notin> set hdr \<Longrightarrow>
   Import env (hdr # rows) name opts = Inl (ParseError 1 0 (ErrFieldNotExists name))"
  by (simp add: Import_def parse_header)

lemma Import_Inl:
  assumes "Import env (hdr # rows) name opts = Inl e" and "name \<in> set hdr"
  shows "(\<exists>k<length rows.
            (e = ParseError (startLine env (k + 1)) (fieldCountColumn env) ErrFieldCount \<and>
               length (rows ! k) \<noteq> length hdr) \<or>
            (e = ParseError (k + 2) (columnOf name hdr) ErrEmailIsNotValid \<and>
               SkipErrInvalidEmails \<notin> set opts \<and>
               \<not> IsValidEmail (rows ! k ! columnOf name hdr)) \<or>
            (e = ParseError (k + 2) (columnOf name hdr) ErrEmailDuplicate \<and>
               SkipErrDuplicateEmails \<notin> set opts \<and>
               rows ! k ! columnOf name hdr \<in> (\<lambda>r. r ! columnOf name hdr) ` set (take k rows))) \<or>
         e = ParseError (length rows + 2) (columnOf name hdr) ErrNoValidEmailsFound"
proof (cases "parse (newImporter env (hdr # rows) name opts)")
  case (Inl e')
  with assms have p: "parse (afterHeader env hdr rows name opts) = Inl e"
    by (simp add: Import_def parse_header)
  have i: "input (reader (afterHeader env hdr rows name opts)) = rows"
    by (simp add: afterHeader_def)
  from parse_rows_Inl [OF midRun_afterHeader [OF assms(2)] i p]
  show ?thesis
    by (simp add: afterHeader_def)
next
  case (Inr c)
  note f = run_facts [OF Inr]
  then have "finite (dom (domainCounter c))" by simp
  from getResult_eq [OF this] assms(1) Inr f
  have "e = ParseError (length rows + 2) (columnOf name hdr) ErrNoValidEmailsFound"
    by (auto simp: Import_def split: if_splits)
  then show ?thesis by simp
qed

lemma columnOf_before:
  assumes "j < columnOf name hdr"
  shows "hdr ! j \<noteq> name"
proof -
  let ?t = "takeWhile (\<lambda>f. f \<noteq> name) hdr"
  from assms have j: "j < length ?t"
    by (simp add: columnOf_def)
  then have "?t ! j = hdr ! j"
    by (rule takeWhile_nth)
  moreover from j have "?t ! j \<in> set ?t"
    by (rule nth_mem)
  ultimately show ?thesis
    by (auto dest: set_takeWhileD)
qed

subsection \<open>Resolving the e-mail column\<close>

text \<open>
  Claim C8. When the header holds the configured field name, \<^verbatim>\<open>determineEmailColumnIndex\<close>
  stores the index of the first field equal to it (no field before that index is equal to
  the name), and the run goes on with that index as its e-mail column. When no field of
  the header equals the name, the run fails at record 1 with \<^verbatim>\<open>ErrFieldNotExists\<close>, whatever
  the data rows and the options are.
\<close>

theorem header_resolution:
  "(emailFieldName c \<in> set header \<longrightarrow>
      (\<exists>i<length header.
         header ! i = emailFieldName c \<and> (\<forall>j<i. header ! j \<noteq> emailFieldName c) \<and>
         determineEmailColumnIndex c header = Inr (c\<lparr>emailColumnIndex := i\<rparr>))) \<and>
   (fieldName \<in> set header \<longrightarrow>
      parse (newImporter env (header # rows) fieldName options) =
        parse (afterHeader env header rows fieldName options) \<and>
      header ! emailColumnIndex (afterHeader env header rows fieldName options) = fieldName \<and>
      (\<forall>j<emailColumnIndex (afterHeader env header rows fieldName options).
         header ! j \<noteq> fieldName)) \<and>
   (fieldName \<notin> set header \<longrightarrow>
      Import env (header # rows) fieldName options =
        Inl (ParseError 1 0 (ErrFieldNotExists fieldName)))"
proof (intro conjI impI)
  have first: "\<forall>j<columnOf name hdr. hdr ! j \<noteq> name" for name :: string and hdr
    by (simp add: columnOf_before)
  {
    assume n: "emailFieldName c \<in> set header"
    show "\<exists>i<length header.
         header ! i = emailFieldName c \<and> (\<forall>j<i. header ! j \<noteq> emailFieldName c) \<and>
         determineEmailColumnIndex c header = Inr (c\<lparr>emailColumnIndex := i\<rparr>)"
      using n columnOf_less [OF n] columnOf_nth [OF n] first [of "emailFieldName c" header]
      by (intro exI [of _ "columnOf (emailFieldName c) header"])
        (simp add: determineEmailColumnIndex_def headerLoop_eq)
  }
  {
    assume n: "fieldName \<in> set header"
    show "parse (newImporter env (header # rows) fieldName options) =
        parse (afterHeader env header rows fieldName options)"
      using n by (simp add: parse_header)
    show "header ! emailColumnIndex (afterHeader env header rows fieldName options) = fieldName"
      using columnOf_nth [OF n] by (simp add: afterHeader_def)
    show "\<forall>j<emailColumnIndex (afterHeader env header rows fieldName options).
         header ! j \<noteq> fieldName"
      using first [of fieldName header] by (simp add: afterHeader_def)
  }
  {
    assume "fieldName \<notin> set header"
    then show "Import env (header # rows) fieldName options =
        Inl (ParseError 1 0 (ErrFieldNotExists fieldName))"
      by (rule Import_no_field)
  }
qed

theorem header_resolution_witness:
  "''email'' \<in> set [''id'', ''email'', ''email''] \<and>
   determineEmailColumnIndex exampleImporter [''id'', ''email'', ''email''] =
     Inr (exampleImporter\<lparr>emailColumnIndex := 1\<rparr>) \<and>
   [''id'', ''email'', ''email''] !
     emailColumnIndex (afterHeader oneRecordPerLine [''id'', ''email'', ''email''] [] ''email'' []) = ''email'' \<and>
   ''email'' \<notin> set [''id'', ''name''] \<and>
   Import oneRecordPerLine [[''id'', ''name''], [''1'', ''a@b.io'']] ''email'' [] =
     Inl (ParseError 1 0 (ErrFieldNotExists ''email''))"
proof -
  let ?h = "[''id'', ''email'', ''email'']"
  have n': "''email'' \<in> set ?h"
    by simp
  note a = header_resolution [of exampleImporter ?h "''email''" oneRecordPerLine "[]" "[]",
      THEN conjunct2, THEN conjunct1, THEN mp, OF n', THEN conjunct2, THEN conjunct1]
  have n: "emailFieldName exampleImporter \<in> set ?h"
    by (simp add: exampleImporter_def)
  have m: "''email'' \<notin> set [''id'', ''name'']"
    by simp
  from header_resolution [of exampleImporter ?h, THEN conjunct1, THEN mp, OF n]
  obtain i where i: "i < length ?h" and e: "?h ! i = emailFieldName exampleImporter"
    and f: "\<forall>j<i. ?h ! j \<noteq> emailFieldName exampleImporter"
    and d: "determineEmailColumnIndex exampleImporter ?h = Inr (exampleImporter\<lparr>emailColumnIndex := i\<rparr>)"
    by (elim exE conjE)
  have "i = 1"
  proof (rule ccontr)
    assume "i \<noteq> 1"
    with i have "i = 0 \<or> i = 2" by (simp add: less_Suc_eq) arith
    then show False
    proof
      assume "i = 0"
      with e show False by (simp add: exampleImporter_def)
    next
      assume "i = 2"
      with f [rule_format, of 1] show False by (simp add: exampleImporter_def)
    qed
  qed
  with d have d1: "determineEmailColumnIndex exampleImporter ?h =
      Inr (exampleImporter\<lparr>emailColumnIndex := 1\<rparr>)"
    by simp
  note header_resolution [of exampleImporter "[''id'', ''name'']" "''email''" oneRecordPerLine
      "[[''1'', ''a@b.io'']]" "[]", THEN conjunct2, THEN conjunct2, THEN mp, OF m]
  with d1 m n' a show ?thesis
    by simp
qed

lemma Import_header_only:
  assumes "name \<in> set hdr"
  shows "parse (newImporter env [hdr] name opts) = Inr ((afterHeader env hdr [] name opts)\<lparr>line := 2\<rparr>)"
    and "Import env [hdr] name opts = Inl (ParseError 2 (columnOf name hdr) ErrNoValidEmailsFound)"
proof -
  show p: "parse (newImporter env [hdr] name opts) = Inr ((afterHeader env hdr [] name opts)\<lparr>line := 2\<rparr>)"
    using assms by (simp add: parse_header parse_Nil afterHeader_def)
  show "Import env [hdr] name opts = Inl (ParseError 2 (columnOf name hdr) ErrNoValidEmailsFound)"
    unfolding Import_def p by (simp add: getResult_def error_def afterHeader_def)
qed

lemma Import_ErrEmptyFile:
  assumes "Import env r name opts = Inl (ParseError l k ErrEmptyFile)"
  shows "r = []"
proof (cases r)
  case Nil
  then show ?thesis .
next
  case (Cons hdr rows)
  show ?thesis
  proof (cases "name \<in> set hdr")
    case True
    from Import_Inl [OF assms [unfolded Cons] True] show ?thesis
      by auto
  next
    case False
    from Import_no_field [OF False, of env rows opts] assms show ?thesis
      by (simp add: Cons)
  qed
qed

subsection \<open>A header without rows, and no input at all\<close>

text \<open>
  Claim C10. For an input of one header row that holds the configured field and no data
  row, \<^verbatim>\<open>parse\<close> succeeds and the run fails with \<^verbatim>\<open>ErrNoValidEmailsFound\<close> (at record 2,
  where the end of the input was read). A run fails with \<^verbatim>\<open>ErrEmptyFile\<close> exactly when the
  input has no record at all, and then at record 1.
\<close>

theorem header_only_input:
  "(fieldName \<in> set header \<longrightarrow>
      (\<exists>c. parse (newImporter env [header] fieldName options) = Inr c) \<and>
      Import env [header] fieldName options =
        Inl (ParseError 2 (columnOf fieldName header) ErrNoValidEmailsFound)) \<and>
   ((\<exists>l k. Import env r fieldName options = Inl (ParseError l k ErrEmptyFile)) \<longleftrightarrow> r = []) \<and>
   Import env [] fieldName options = Inl (ParseError 1 0 ErrEmptyFile)"
proof (intro conjI impI)
  assume n: "fieldName \<in> set header"
  show "\<exists>c. parse (newImporter env [header] fieldName options) = Inr c"
    using Import_header_only(1) [OF n] by (rule exI)
  show "Import env [header] fieldName options =
        Inl (ParseError 2 (columnOf fieldName header) ErrNoValidEmailsFound)"
    by (rule Import_header_only(2) [OF n])
next
  show "(\<exists>l k. Import env r fieldName options = Inl (ParseError l k ErrEmptyFile)) \<longleftrightarrow> r = []"
    using Import_ErrEmptyFile Import_Nil by blast
next
  show "Import env [] fieldName options = Inl (ParseError 1 0 ErrEmptyFile)"
    by (rule Import_Nil)
qed

theorem header_only_input_witness:
  "''email'' \<in> set [''name'', ''email''] \<and>
   Import oneRecordPerLine [[''name'', ''email'']] ''email'' [] = Inl (ParseError 2 1 ErrNoValidEmailsFound) \<and>
   Import oneRecordPerLine [] ''email'' [] = Inl (ParseError 1 0 ErrEmptyFile)"
proof -
  have n: "''email'' \<in> set [''name'', ''email'']"
    by simp
  have c: "columnOf ''email'' [''name'', ''email''] = 1"
    by (simp add: columnOf_def)
  note t = header_only_input [of "''email''" "[''name'', ''email'']" oneRecordPerLine "[]" "[]"]
  from t [THEN conjunct1, THEN mp, OF n, THEN conjunct2]
  have "Import oneRecordPerLine [[''name'', ''email'']] ''email'' [] = Inl (ParseError 2 1 ErrNoValidEmailsFound)"
    unfolding c .
  with n t [THEN conjunct2, THEN conjunct2] show ?thesis
    by (intro conjI)
qed

subsection \<open>Results of runs\<close>

lemma run_Cons:
  assumes "parse (newImporter env r name opts) = Inr c"
  obtains hdr rows where "r = hdr # rows"
  using assms by (cases r) (simp_all add: parse_empty_input)

lemma run_dom:
  assumes "parse (newImporter env (hdr # rows) name opts) = Inr c"
    and "d \<in> dom (domainCounter c)"
  shows "\<exists>r\<in>set rows. IsValidEmail (r ! columnOf name hdr) \<and> d = domainOf (r ! columnOf name hdr)"
proof -
  note f = run_facts [OF assms(1)]
  then have n: "name \<in> set hdr" and p: "parse (afterHeader env hdr rows name opts) = Inr c"
    by simp_all
  have i: "input (reader (afterHeader env hdr rows name opts)) = rows"
    by (simp add: afterHeader_def)
  from parse_rows_dom [OF midRun_afterHeader [OF n] i p assms(2)] show ?thesis
    by (simp add: afterHeader_def)
qed

lemma distinct_not_before:
  assumes "distinct (map f xs)" and "k < length xs"
  shows "f (xs ! k) \<notin> f ` set (take k xs)"
proof
  assume "f (xs ! k) \<in> f ` set (take k xs)"
  then obtain j where j: "j < k" and e: "f (xs ! j) = f (xs ! k)"
    using assms(2) by (auto simp: in_set_conv_nth)
  from nth_eq_iff_index_eq [OF assms(1), of j k] j assms(2) e show False
    by simp
qed

lemma Import_Inr:
  assumes "Import env r name opts = Inr result"
  obtains c where "parse (newImporter env r name opts) = Inr c" and "getResult c = Inr result"
  using assms by (auto simp: Import_def split: sum.splits)

lemma Import_all_skipped:
  assumes n: "name \<in> set hdr"
    and rows: "\<forall>row\<in>set rows. length row = length hdr \<and> \<not> IsValidEmail (row ! columnOf name hdr)"
    and inv: "SkipErrInvalidEmails \<in> set opts"
    and dup: "SkipErrDuplicateEmails \<in> set opts \<or> distinct (map (\<lambda>row. row ! columnOf name hdr) rows)"
  shows "Import env (hdr # rows) name opts =
           Inl (ParseError (length rows + 2) (columnOf name hdr) ErrNoValidEmailsFound)"
proof (cases "Import env (hdr # rows) name opts")
  case (Inl e)
  have "\<not> (rows ! k ! columnOf name hdr \<in> (\<lambda>r. r ! columnOf name hdr) ` set (take k rows) \<and>
           SkipErrDuplicateEmails \<notin> set opts)" if "k < length rows" for k
    using dup distinct_not_before [OF _ that, of "\<lambda>row. row ! columnOf name hdr"] by auto
  with Import_Inl [OF Inl n] rows inv Inl show ?thesis
    by auto
next
  case (Inr result)
  then obtain c where p: "parse (newImporter env (hdr # rows) name opts) = Inr c"
    and g: "getResult c = Inr result"
    by (rule Import_Inr)
  from run_facts [OF p] have "finite (dom (domainCounter c))" by simp
  from getResult_eq [OF this] g have "domainCounter c \<noteq> Map.empty"
    by (auto split: if_splits)
  then obtain d where "d \<in> dom (domainCounter c)"
    by (auto simp: fun_eq_iff)
  from run_dom [OF p this] rows show ?thesis
    by auto
qed

subsection \<open>Finalization\<close>

text \<open>
  Claim C6. For a domain counter with finitely many keys, as every Go map has and as every
  importer that \<^verbatim>\<open>parse\<close> returns has, \<^verbatim>\<open>getResult\<close> fails with \<^verbatim>\<open>ErrNoValidEmailsFound\<close>
  exactly when the counter is empty and returns a list exactly when it is not. A list that a
  run returns is not empty and each of its counts is at least 1. A run in which every row
  is skipped (rows of the right length, no valid address, \<^verbatim>\<open>SkipErrInvalidEmails\<close> set, and
  either \<^verbatim>\<open>SkipErrDuplicateEmails\<close> set or no address repeated) fails with
  \<^verbatim>\<open>ErrNoValidEmailsFound\<close>, at the record number after the last row.
\<close>

theorem finalization:
  "(finite (dom (domainCounter c)) \<longrightarrow>
      (getResult c = Inl (ParseError (line c) (emailColumnIndex c) ErrNoValidEmailsFound) \<longleftrightarrow>
         domainCounter c = Map.empty) \<and>
      ((\<exists>result. getResult c = Inr result) \<longleftrightarrow> domainCounter c \<noteq> Map.empty)) \<and>
   (parse (newImporter env r fieldName options) = Inr c \<longrightarrow>
      finite (dom (domainCounter c)) \<and> Import env r fieldName options = getResult c) \<and>
   (Import env r fieldName options = Inr result \<longrightarrow>
      result \<noteq> [] \<and> (\<forall>x\<in>set result. 1 \<le> EmailsCount x)) \<and>
   (fieldName \<in> set header \<and>
    (\<forall>row\<in>set rows. length row = length header \<and>
                     \<not> IsValidEmail (row ! columnOf fieldName header)) \<and>
    SkipErrInvalidEmails \<in> set options \<and>
    (SkipErrDuplicateEmails \<in> set options \<or>
     distinct (map (\<lambda>row. row ! columnOf fieldName header) rows)) \<longrightarrow>
      Import env (header # rows) fieldName options =
        Inl (ParseError (length rows + 2) (columnOf fieldName header) ErrNoValidEmailsFound))"
proof (intro conjI impI)
  assume f: "finite (dom (domainCounter c))"
  show "getResult c = Inl (ParseError (line c) (emailColumnIndex c) ErrNoValidEmailsFound) \<longleftrightarrow>
         domainCounter c = Map.empty"
    by (simp add: getResult_eq [OF f])
  show "(\<exists>result. getResult c = Inr result) \<longleftrightarrow> domainCounter c \<noteq> Map.empty"
    by (simp add: getResult_eq [OF f])
next
  assume p: "parse (newImporter env r fieldName options) = Inr c"
  then obtain hdr rows where r: "r = hdr # rows"
    by (rule run_Cons)
  from run_facts [OF p [unfolded r]] show "finite (dom (domainCounter c))"
    by simp
  show "Import env r fieldName options = getResult c"
    by (simp add: Import_def p)
next
  assume i: "Import env r fieldName options = Inr result"
  then obtain c where p: "parse (newImporter env r fieldName options) = Inr c"
    and g: "getResult c = Inr result"
    by (rule Import_Inr)
  from p obtain hdr rows where r: "r = hdr # rows"
    by (rule run_Cons)
  from run_facts [OF p [unfolded r]]
  have f: "finite (dom (domainCounter c))" and pos: "positive (domainCounter c)"
    by simp_all
  from g have res: "result = map (\<lambda>domain. \<lparr>Domain = domain, EmailsCount = the (domainCounter c domain)\<rparr>)
                  (sorted_list_of_set (dom (domainCounter c)))"
    and ne: "domainCounter c \<noteq> Map.empty"
    by (auto simp: getResult_eq [OF f] split: if_splits)
  from ne f show "result \<noteq> []"
    by (simp add: res)
  show "\<forall>x\<in>set result. 1 \<le> EmailsCount x"
    using pos f by (auto simp: res positive_def)
next
  assume "fieldName \<in> set header \<and>
    (\<forall>row\<in>set rows. length row = length header \<and>
                     \<not> IsValidEmail (row ! columnOf fieldName header)) \<and>
    SkipErrInvalidEmails \<in> set options \<and>
    (SkipErrDuplicateEmails \<in> set options \<or>
     distinct (map (\<lambda>row. row ! columnOf fieldName header) rows))"
  then show "Import env (header # rows) fieldName options =
        Inl (ParseError (length rows + 2) (columnOf fieldName header) ErrNoValidEmailsFound)"
    by (intro Import_all_skipped) simp_all
qed

theorem finalization_witness:
  "parse (newImporter oneRecordPerLine [[''email''], [''mhernandez0@github.io'']] ''email'' []) =
     Inr (seenOnce False) \<and>
   finite (dom (domainCounter (seenOnce False))) \<and>
   Import oneRecordPerLine [[''email''], [''mhernandez0@github.io'']] ''email'' [] = getResult (seenOnce False) \<and>
   finite (dom (domainCounter exampleImporter)) \<and>
   domainCounter exampleImporter = Map.empty \<and>
   getResult exampleImporter = Inl (ParseError 2 0 ErrNoValidEmailsFound) \<and>
   Import oneRecordPerLine [[''email''], [''mhernandez@github.io'']] ''email'' [] =
     Inr [\<lparr>Domain = ''github.io'', EmailsCount = 1\<rparr>] \<and>
   1 \<le> EmailsCount \<lparr>Domain = ''github.io'', EmailsCount = 1\<rparr> \<and>
   ''email'' \<in> set [''email''] \<and>
   length [''mhernandezgithub.io''] = length [''email''] \<and>
   \<not> IsValidEmail ''mhernandezgithub.io'' \<and>
   SkipErrInvalidEmails \<in> set [SkipErrInvalidEmails] \<and>
   distinct [''mhernandezgithub.io''] \<and>
   Import oneRecordPerLine [[''email''], [''mhernandezgithub.io'']] ''email'' [SkipErrInvalidEmails] =
     Inl (ParseError 3 0 ErrNoValidEmailsFound)"
proof -
  let ?res = "[\<lparr>Domain = ''github.io'', EmailsCount = 1\<rparr>]"
  have f: "finite (dom (domainCounter exampleImporter))"
    and e: "domainCounter exampleImporter = Map.empty"
    by (simp_all add: exampleImporter_def)
  have l: "line exampleImporter = 2" "emailColumnIndex exampleImporter = 0"
    by (simp_all add: exampleImporter_def)
  from finalization [of exampleImporter, THEN conjunct1, THEN mp, OF f, THEN conjunct1, THEN iffD2, OF e]
  have g: "getResult exampleImporter = Inl (ParseError 2 0 ErrNoValidEmailsFound)"
    unfolding l .
  have i: "Import oneRecordPerLine [[''email''], [''mhernandez@github.io'']] ''email'' [] = Inr ?res"
    by (simp add: Import_def newImporter_def NewReader_def oneRecordPerLine_def Read_def Let_def parse.simps
        determineEmailColumnIndex_def updateDomainCounter_def handleDuplicates_def
        getDomainNameFromEmail_def IsValidEmail_def getResult_def increment_def)
  from finalization [THEN conjunct2, THEN conjunct2, THEN conjunct1, THEN mp, OF i,
      THEN conjunct2, THEN bspec, of "\<lparr>Domain = ''github.io'', EmailsCount = 1\<rparr>"]
  have one: "1 \<le> EmailsCount \<lparr>Domain = ''github.io'', EmailsCount = 1\<rparr>"
    by simp
  have c: "columnOf ''email'' [''email''] = 0"
    by (simp add: columnOf_def)
  have v: "\<not> IsValidEmail ''mhernandezgithub.io''"
    by (simp add: IsValidEmail_def)
  have h: "''email'' \<in> set [''email''] \<and>
    (\<forall>row\<in>set [[''mhernandezgithub.io'']]. length row = length [''email''] \<and>
                     \<not> IsValidEmail (row ! columnOf ''email'' [''email''])) \<and>
    SkipErrInvalidEmails \<in> set [SkipErrInvalidEmails] \<and>
    (SkipErrDuplicateEmails \<in> set [SkipErrInvalidEmails] \<or>
     distinct (map (\<lambda>row. row ! columnOf ''email'' [''email'']) [[''mhernandezgithub.io'']]))"
    using v by (simp add: c)
  from finalization [where env = oneRecordPerLine,
      THEN conjunct2, THEN conjunct2, THEN conjunct2, THEN mp, OF h]
  have s: "Import oneRecordPerLine [[''email''], [''mhernandezgithub.io'']] ''email'' [SkipErrInvalidEmails] =
     Inl (ParseError 3 0 ErrNoValidEmailsFound)"
    by (simp add: c)
  have t: "''email'' \<in> set [''email'']"
    "length [''mhernandezgithub.io''] = length [''email'']"
    "SkipErrInvalidEmails \<in> set [SkipErrInvalidEmails]"
    "distinct [''mhernandezgithub.io'']"
    by simp_all
  have p: "parse (newImporter oneRecordPerLine [[''email''], [''mhernandez0@github.io'']] ''email'' []) =
     Inr (seenOnce False)"
    by (simp add: parse.simps newImporter_def NewReader_def oneRecordPerLine_def Read_def Let_def
        determineEmailColumnIndex_def updateDomainCounter_def handleDuplicates_def
        getDomainNameFromEmail_def IsValidEmail_def increment_def seenOnce_def)
  note q = finalization [THEN conjunct2, THEN conjunct1, THEN mp, OF p]
  show ?thesis
    by (intro conjI p q [THEN conjunct1] q [THEN conjunct2] f e g i one t v s)
qed

subsection \<open>Counting\<close>

lemma count_list_map:
  "count_list (map f xs) d = length (filter (\<lambda>x. f x = d) xs)"
  by (induction xs) auto

lemma count_list_distinct:
  "distinct xs \<Longrightarrow> d \<in> set xs \<Longrightarrow> count_list xs d = 1"
  by (induction xs) (auto simp: count_list_0_iff)

lemma Import_valid_rows:
  assumes n: "name \<in> set hdr"
    and rows: "\<forall>row\<in>set rows. length row = length hdr \<and> IsValidEmail (row ! columnOf name hdr)"
    and dist: "distinct (map (\<lambda>row. row ! columnOf name hdr) rows)"
    and ne: "rows \<noteq> []"
  shows "Import env (hdr # rows) name opts =
           Inr (map (\<lambda>d. \<lparr>Domain = d,
                           EmailsCount = int (count_list (map (\<lambda>row. domainOf (row ! columnOf name hdr)) rows) d)\<rparr>)
                  (sorted_list_of_set ((\<lambda>row. domainOf (row ! columnOf name hdr)) ` set rows)))"
proof -
  let ?c = "afterHeader env hdr rows name opts"
  let ?ds = "map (\<lambda>row. domainOf (row ! columnOf name hdr)) rows"
  have i: "input (reader ?c) = rows" and k: "emailColumnIndex ?c = columnOf name hdr"
    and e: "countedEmails ?c = Map.empty" "domainCounter ?c = Map.empty"
    by (simp_all add: afterHeader_def)
  have "\<exists>c'. parse ?c = Inr c' \<and>
          domainCounter c' =
            fold (\<lambda>d m. increment m d) (map (\<lambda>r. domainOf (r ! emailColumnIndex ?c)) rows)
              (domainCounter ?c)"
    by (rule parse_valid_rows [OF midRun_afterHeader [OF n] i])
      (use rows dist in \<open>simp_all add: k e\<close>)
  then obtain c' where p: "parse ?c = Inr c'"
    and d: "domainCounter c' = fold (\<lambda>d m. increment m d) ?ds Map.empty"
    unfolding k e by blast
  have m: "domainCounter c' = (\<lambda>d. if d \<in> set ?ds then Some (int (count_list ?ds d)) else None)"
    unfolding d by (rule ext) (simp add: fold_increment)
  have dom: "dom (domainCounter c') = set ?ds"
    unfolding m by (auto split: if_splits)
  have fin: "finite (dom (domainCounter c'))"
    unfolding dom by simp
  from ne have nonempty: "domainCounter c' \<noteq> Map.empty"
    using dom by (metis dom_empty set_empty map_is_Nil_conv)
  have "getResult c' =
          Inr (map (\<lambda>d. \<lparr>Domain = d, EmailsCount = the (domainCounter c' d)\<rparr>)
                 (sorted_list_of_set (set ?ds)))"
    using nonempty by (simp add: getResult_eq [OF fin] dom)
  also have "map (\<lambda>d. \<lparr>Domain = d, EmailsCount = the (domainCounter c' d)\<rparr>)
                 (sorted_list_of_set (set ?ds)) =
             map (\<lambda>d. \<lparr>Domain = d, EmailsCount = int (count_list ?ds d)\<rparr>)
                 (sorted_list_of_set (set ?ds))"
    by (rule map_cong) (simp_all add: m)
  finally show ?thesis
    using n p by (simp add: Import_def parse_header)
qed

subsection \<open>Valid rows without duplicates\<close>

text \<open>
  Claim C1, amended. For an input whose header holds the configured field, with at least
  one data row, whose data rows all have the header's number of fields and valid,
  pairwise distinct addresses in the e-mail column, the run without options succeeds.
  The list it returns has each domain once, the count of every entry is the number of
  data rows whose address has that domain, and the domain of every row has an entry.
\<close>

theorem valid_rows_counted:
  assumes "fieldName \<in> set header"
    and "rows \<noteq> []"
    and "\<forall>row\<in>set rows. length row = length header \<and>
                           IsValidEmail (row ! columnOf fieldName header)"
    and "distinct (map (\<lambda>row. row ! columnOf fieldName header) rows)"
  shows "\<exists>result. Import env (header # rows) fieldName [] = Inr result \<and>
           distinct (map Domain result) \<and>
           (\<forall>x\<in>set result.
              EmailsCount x =
                int (length (filter (\<lambda>row. getDomainNameFromEmail (row ! columnOf fieldName header) =
                                             Inr (Domain x)) rows))) \<and>
           (\<forall>row\<in>set rows. \<exists>x\<in>set result.
              getDomainNameFromEmail (row ! columnOf fieldName header) = Inr (Domain x))"
proof -
  let ?k = "columnOf fieldName header"
  let ?ds = "map (\<lambda>row. domainOf (row ! ?k)) rows"
  let ?result = "map (\<lambda>d. \<lparr>Domain = d, EmailsCount = int (count_list ?ds d)\<rparr>)
                  (sorted_list_of_set ((\<lambda>row. domainOf (row ! ?k)) ` set rows))"
  have g: "getDomainNameFromEmail (row ! ?k) = Inr (domainOf (row ! ?k))" if "row \<in> set rows" for row
    using assms(3) that by (simp add: getDomainNameFromEmail_eq)
  have c: "count_list ?ds d =
             length (filter (\<lambda>row. getDomainNameFromEmail (row ! ?k) = Inr d) rows)" for d
    unfolding count_list_map by (rule arg_cong [of _ _ length], rule filter_cong) (simp_all add: g)
  have "Import env (header # rows) fieldName [] = Inr ?result"
    by (rule Import_valid_rows [OF assms(1,3,4,2)])
  moreover have "distinct (map Domain ?result)"
    by (simp add: comp_def)
  moreover have "\<forall>x\<in>set ?result.
              EmailsCount x =
                int (length (filter (\<lambda>row. getDomainNameFromEmail (row ! ?k) = Inr (Domain x)) rows))"
    by (auto simp: c)
  moreover have "\<forall>row\<in>set rows. \<exists>x\<in>set ?result.
              getDomainNameFromEmail (row ! ?k) = Inr (Domain x)"
    by (auto simp: g)
  ultimately show ?thesis
    by blast
qed

theorem valid_rows_counted_witness:
  "''email'' \<in> set [''id'', ''email''] \<and>
   [[''1'', ''a@x.io''], [''2'', ''b@x.io'']] \<noteq> [] \<and>
   length [''1'', ''a@x.io''] = length [''id'', ''email''] \<and>
   length [''2'', ''b@x.io''] = length [''id'', ''email''] \<and>
   IsValidEmail ''a@x.io'' \<and> IsValidEmail ''b@x.io'' \<and>
   distinct [''a@x.io'', ''b@x.io''] \<and>
   Import oneRecordPerLine [[''id'', ''email''], [''1'', ''a@x.io''], [''2'', ''b@x.io'']] ''email'' [] =
     Inr [\<lparr>Domain = ''x.io'', EmailsCount = 2\<rparr>] \<and>
   EmailsCount \<lparr>Domain = ''x.io'', EmailsCount = 2\<rparr> =
     int (length (filter (\<lambda>row. getDomainNameFromEmail (row ! columnOf ''email'' [''id'', ''email'']) =
                                 Inr (Domain \<lparr>Domain = ''x.io'', EmailsCount = 2\<rparr>))
                    [[''1'', ''a@x.io''], [''2'', ''b@x.io'']]))"
proof -
  let ?h = "[''id'', ''email'']"
  let ?rows = "[[''1'', ''a@x.io''], [''2'', ''b@x.io'']]"
  let ?x = "\<lparr>Domain = ''x.io'', EmailsCount = 2\<rparr>"
  have k: "columnOf ''email'' ?h = 1"
    by (simp add: columnOf_def)
  have v: "IsValidEmail ''a@x.io''" "IsValidEmail ''b@x.io''"
    by (simp_all add: IsValidEmail_def)
  have t: "''email'' \<in> set ?h" "?rows \<noteq> []"
    "length [''1'', ''a@x.io''] = length ?h" "length [''2'', ''b@x.io''] = length ?h"
    "distinct [''a@x.io'', ''b@x.io'']"
    by simp_all
  have h3: "\<forall>row\<in>set ?rows. length row = length ?h \<and> IsValidEmail (row ! columnOf ''email'' ?h)"
    using v by (simp add: k)
  have h4: "distinct (map (\<lambda>row. row ! columnOf ''email'' ?h) ?rows)"
    by (simp add: k)
  have e: "Import oneRecordPerLine (?h # ?rows) ''email'' [] = Inr [?x]"
    by (simp add: Import_def newImporter_def NewReader_def oneRecordPerLine_def Read_def Let_def parse.simps
        determineEmailColumnIndex_def updateDomainCounter_def handleDuplicates_def
        getDomainNameFromEmail_def IsValidEmail_def getResult_def increment_def)
  from valid_rows_counted [OF t(1,2) h3 h4, of oneRecordPerLine]
  obtain result where r: "Import oneRecordPerLine (?h # ?rows) ''email'' [] = Inr result"
    and c: "\<forall>x\<in>set result. EmailsCount x =
                int (length (filter (\<lambda>row. getDomainNameFromEmail (row ! columnOf ''email'' ?h) =
                                             Inr (Domain x)) ?rows))"
    by (elim exE conjE)
  from r e have "result = [?x]"
    by simp
  with c have n: "EmailsCount ?x =
                int (length (filter (\<lambda>row. getDomainNameFromEmail (row ! columnOf ''email'' ?h) =
                                             Inr (Domain ?x)) ?rows))"
    by simp
  show ?thesis
    by (intro conjI t v e n)
qed

text \<open>
  The claim as the spec has it does not ask for a data row. A header alone meets its
  conditions, and the run fails.
\<close>

theorem no_rows_counterexample:
  "''email'' \<in> set [''email''] \<and>
   Import oneRecordPerLine [[''email'']] ''email'' [] = Inl (ParseError 2 0 ErrNoValidEmailsFound)"
  by (simp add: Import_def newImporter_def NewReader_def oneRecordPerLine_def Read_def Let_def parse.simps
      determineEmailColumnIndex_def getResult_def error_def)

subsection \<open>The order of the result\<close>

text \<open>
  Claim C5. The list that a successful run returns is strictly ascending in its domains,
  under the bytewise lexicographic order of strings. For rows of the header's length whose
  domains are \<^verbatim>\<open>a.io\<close>, \<^verbatim>\<open>b.io\<close>, \<^verbatim>\<open>c.io\<close> and \<^verbatim>\<open>d.io\<close> once each, in any order of
  the rows (the multiset of their domains is given, not their sequence), the run returns
  \<^verbatim>\<open>a.io\<close>, \<^verbatim>\<open>b.io\<close>, \<^verbatim>\<open>c.io\<close>, \<^verbatim>\<open>d.io\<close> in this order, each with count 1, whatever the
  options.
\<close>

theorem result_sorted:
  "(Import env r fieldName options = Inr result \<longrightarrow>
      sorted_wrt (\<lambda>x y. Domain x < Domain y) result) \<and>
   (fieldName \<in> set header \<and>
    (\<forall>row\<in>set rows. length row = length header) \<and>
    mset (map (\<lambda>row. getDomainNameFromEmail (row ! columnOf fieldName header)) rows) =
      mset [Inr ''a.io'', Inr ''b.io'', Inr ''c.io'', Inr ''d.io''] \<longrightarrow>
      Import env (header # rows) fieldName options =
        Inr [\<lparr>Domain = ''a.io'', EmailsCount = 1\<rparr>, \<lparr>Domain = ''b.io'', EmailsCount = 1\<rparr>,
             \<lparr>Domain = ''c.io'', EmailsCount = 1\<rparr>, \<lparr>Domain = ''d.io'', EmailsCount = 1\<rparr>])"
proof (intro conjI impI)
  assume "Import env r fieldName options = Inr result"
  then obtain c where p: "parse (newImporter env r fieldName options) = Inr c"
    and g: "getResult c = Inr result"
    by (rule Import_Inr)
  from p obtain hdr rows' where r: "r = hdr # rows'"
    by (rule run_Cons)
  from run_facts [OF p [unfolded r]] have f: "finite (dom (domainCounter c))"
    by simp
  from g have "result = map (\<lambda>domain. \<lparr>Domain = domain, EmailsCount = the (domainCounter c domain)\<rparr>)
                  (sorted_list_of_set (dom (domainCounter c)))"
    by (auto simp: getResult_eq [OF f] split: if_splits)
  then show "sorted_wrt (\<lambda>x y. Domain x < Domain y) result"
    by (simp add: sorted_wrt_map)
next
  let ?k = "columnOf fieldName header"
  let ?g = "\<lambda>row. getDomainNameFromEmail (row ! ?k)"
  let ?ds = "map (\<lambda>row. domainOf (row ! ?k)) rows"
  let ?four = "[''a.io'', ''b.io'', ''c.io'', ''d.io'']"
  assume a: "fieldName \<in> set header \<and>
    (\<forall>row\<in>set rows. length row = length header) \<and>
    mset (map ?g rows) = mset [Inr ''a.io'', Inr ''b.io'', Inr ''c.io'', Inr ''d.io'']"
  then have n: "fieldName \<in> set header" and len: "\<forall>row\<in>set rows. length row = length header"
    and m: "mset (map ?g rows) = mset (map Inr ?four)"
    by simp_all
  have s: "set (map ?g rows) = set (map Inr ?four)"
    by (rule mset_eq_setD [OF m])
  have valid: "IsValidEmail (row ! ?k)" if "row \<in> set rows" for row
  proof (rule ccontr)
    assume "\<not> IsValidEmail (row ! ?k)"
    then have "?g row = Inl ErrEmailIsNotValid"
      by (simp add: getDomainNameFromEmail_eq)
    moreover from that have "?g row \<in> set (map ?g rows)"
      by simp
    ultimately show False
      unfolding s by auto
  qed
  then have g: "map ?g rows = map Inr ?ds"
    by (simp add: getDomainNameFromEmail_eq)
  have "distinct (map Inr ?four :: (error + string) list)"
    by simp
  with m have "distinct (map ?g rows)"
    by (simp only: mset_eq_imp_distinct_iff [OF m])
  then have dg: "distinct (map (Inr :: string \<Rightarrow> error + string) ?ds)"
    unfolding g .
  then have dd: "distinct ?ds"
    by (auto simp: distinct_map inj_on_def)
  have de: "distinct (map (\<lambda>row. row ! ?k) rows)"
    using dd by (auto simp: distinct_map inj_on_def)
  from s have "Inr ` set ?ds = (Inr ` set ?four :: (error + string) set)"
    unfolding g by (simp only: set_map)
  then have sd: "set ?ds = set ?four"
    by (simp only: inj_image_eq_iff [OF inj_Inr])
  from m have "rows \<noteq> []"
    by auto
  from Import_valid_rows [OF n _ de this, of env options] len valid
  have "Import env (header # rows) fieldName options =
          Inr (map (\<lambda>d. \<lparr>Domain = d, EmailsCount = int (count_list ?ds d)\<rparr>)
                 (sorted_list_of_set (set ?ds)))"
    by simp
  also have "map (\<lambda>d. \<lparr>Domain = d, EmailsCount = int (count_list ?ds d)\<rparr>)
                 (sorted_list_of_set (set ?ds)) =
             map (\<lambda>d. \<lparr>Domain = d, EmailsCount = 1\<rparr>) (sorted_list_of_set (set ?ds))"
    by (rule map_cong) (simp_all add: count_list_distinct [OF dd])
  also have "sorted_list_of_set (set ?ds) = ?four"
    unfolding sd by simp
  finally show "Import env (header # rows) fieldName options =
        Inr [\<lparr>Domain = ''a.io'', EmailsCount = 1\<rparr>, \<lparr>Domain = ''b.io'', EmailsCount = 1\<rparr>,
             \<lparr>Domain = ''c.io'', EmailsCount = 1\<rparr>, \<lparr>Domain = ''d.io'', EmailsCount = 1\<rparr>]"
    by simp
qed

theorem result_sorted_witness:
  "''email'' \<in> set [''email''] \<and>
   map length [[''email@b.io''], [''email@c.io''], [''email@d.io''], [''email@a.io'']] =
     [length [''email''], length [''email''], length [''email''], length [''email'']] \<and>
   mset (map (\<lambda>row. getDomainNameFromEmail (row ! columnOf ''email'' [''email'']))
          [[''email@b.io''], [''email@c.io''], [''email@d.io''], [''email@a.io'']]) =
     mset [Inr ''a.io'', Inr ''b.io'', Inr ''c.io'', Inr ''d.io''] \<and>
   Import oneRecordPerLine [[''email''], [''email@b.io''], [''email@c.io''], [''email@d.io''], [''email@a.io'']]
     ''email'' [] =
     Inr [\<lparr>Domain = ''a.io'', EmailsCount = 1\<rparr>, \<lparr>Domain = ''b.io'', EmailsCount = 1\<rparr>,
          \<lparr>Domain = ''c.io'', EmailsCount = 1\<rparr>, \<lparr>Domain = ''d.io'', EmailsCount = 1\<rparr>] \<and>
   sorted_wrt (\<lambda>x y. Domain x < Domain y)
     [\<lparr>Domain = ''a.io'', EmailsCount = 1\<rparr>, \<lparr>Domain = ''b.io'', EmailsCount = 1\<rparr>,
      \<lparr>Domain = ''c.io'', EmailsCount = 1\<rparr>, \<lparr>Domain = ''d.io'', EmailsCount = 1\<rparr>]"
proof -
  let ?rows = "[[''email@b.io''], [''email@c.io''], [''email@d.io''], [''email@a.io'']]"
  let ?res = "[\<lparr>Domain = ''a.io'', EmailsCount = 1\<rparr>, \<lparr>Domain = ''b.io'', EmailsCount = 1\<rparr>,
          \<lparr>Domain = ''c.io'', EmailsCount = 1\<rparr>, \<lparr>Domain = ''d.io'', EmailsCount = 1\<rparr>]"
  have k: "columnOf ''email'' [''email''] = 0"
    by (simp add: columnOf_def)
  have n: "''email'' \<in> set [''email'']"
    by simp
  have l: "map length ?rows =
     [length [''email''], length [''email''], length [''email''], length [''email'']]"
    by simp
  have l': "\<forall>row\<in>set ?rows. length row = length [''email'']"
    by simp
  have g: "map (\<lambda>row. getDomainNameFromEmail (row ! columnOf ''email'' [''email''])) ?rows =
           [Inr ''b.io'', Inr ''c.io'', Inr ''d.io'', Inr ''a.io'']"
    by (simp add: k getDomainNameFromEmail_def IsValidEmail_def)
  have m: "mset (map (\<lambda>row. getDomainNameFromEmail (row ! columnOf ''email'' [''email''])) ?rows) =
     mset [Inr ''a.io'', Inr ''b.io'', Inr ''c.io'', Inr ''d.io'']"
    unfolding g by (simp add: add_mset_commute)
  note t = result_sorted [of oneRecordPerLine "[''email''] # ?rows" "''email''" "[]" ?res "[''email'']" ?rows]
  from t [THEN conjunct2, THEN mp, OF conjI [OF n conjI [OF l' m]]]
  have i: "Import oneRecordPerLine ([''email''] # ?rows) ''email'' [] = Inr ?res" .
  from t [THEN conjunct1, THEN mp, OF i]
  have s: "sorted_wrt (\<lambda>x y. Domain x < Domain y) ?res" .
  show ?thesis
    by (intro conjI n l m i s)
qed

subsection \<open>An address seen before\<close>

lemma seen_row:
  assumes p: "parse (newImporter env (hdr # pre) name opts) = Inr c"
    and len: "length row = length hdr"
    and seen: "row ! columnOf name hdr \<in> (\<lambda>r. r ! columnOf name hdr) ` set pre"
  shows "parse (newImporter env (hdr # pre @ row # post) name opts) =
           (if SkipErrDuplicateEmails \<in> set opts
            then parse (advance (feed (c\<lparr>line := line c - 1\<rparr>) (row # post)) post)
            else Inl (ParseError (length pre + 2) (columnOf name hdr) ErrEmailDuplicate))"
proof -
  define C where "C = feed (c\<lparr>line := line c - 1\<rparr>) (row # post)"
  note f = run_facts [OF p]
  note r = run_prefix [OF p, of "row # post", folded C_def]
  have inp: "input (reader C) = row # post"
    by (simp add: C_def)
  have fields: "emailColumnIndex C = columnOf name hdr" "countedEmails C = countedEmails c"
    "skipErrDupEmails C = (SkipErrDuplicateEmails \<in> set opts)" "line C + 1 = length pre + 2"
    using f by (simp_all add: C_def feed_def)
  from r(2) len have i: "emailColumnIndex (advance C post) < length row"
    by (simp add: midRun_def)
  from seen f have s: "countedEmails c (row ! columnOf name hdr) \<noteq> None"
    by (auto simp: dom_def)
  have u: "updateDomainCounter (advance C post) row =
             (if SkipErrDuplicateEmails \<in> set opts then Inr (advance C post)
              else Inl ErrEmailDuplicate)"
    using s by (simp add: updateDomainCounter_eq [OF i] Let_def fields)
  have "parse C =
          (if SkipErrDuplicateEmails \<in> set opts then parse (advance C post)
           else Inl (ParseError (length pre + 2) (columnOf name hdr) ErrEmailDuplicate))"
    unfolding parse_row [OF r(2) inp] u using len fields by simp
  then show ?thesis
    unfolding r(1) unfolding C_def .
qed

text \<open>
  Claim C4. Let the header and the rows before a row be processed without a failure, and
  let the row have the header's length and an address that an earlier row of the run had.
  Without \<^verbatim>\<open>SkipErrDuplicateEmails\<close> the run fails at that row's record number with
  \<^verbatim>\<open>ErrEmailDuplicate\<close>. With it the row is passed over: the domain counter and the set
  of seen addresses are what they were before the row, and only the line counter advances. So a
  valid address in two rows, with the option, gives the count 1 for its domain.
\<close>

theorem duplicate_email:
  "(parse (newImporter env (header # pre) fieldName options) = Inr c \<and>
    length row = length header \<and>
    row ! columnOf fieldName header \<in> (\<lambda>r. r ! columnOf fieldName header) ` set pre \<longrightarrow>
      (SkipErrDuplicateEmails \<notin> set options \<longrightarrow>
         Import env (header # pre @ row # post) fieldName options =
           Inl (ParseError (length pre + 2) (columnOf fieldName header) ErrEmailDuplicate)) \<and>
      (SkipErrDuplicateEmails \<in> set options \<longrightarrow>
         (\<exists>c'. parse (newImporter env (header # pre @ [row]) fieldName options) = Inr c' \<and>
               domainCounter c' = domainCounter c \<and> countedEmails c' = countedEmails c \<and>
               line c' = line c + 1))) \<and>
   (fieldName \<in> set header \<and> length row = length header \<and> length row' = length header \<and>
    getDomainNameFromEmail (row ! columnOf fieldName header) = Inr d \<and>
    row' ! columnOf fieldName header = row ! columnOf fieldName header \<and>
    SkipErrDuplicateEmails \<in> set options \<longrightarrow>
      Import env [header, row, row'] fieldName options = Inr [\<lparr>Domain = d, EmailsCount = 1\<rparr>])"
proof (intro conjI impI)
  assume a: "parse (newImporter env (header # pre) fieldName options) = Inr c \<and>
    length row = length header \<and>
    row ! columnOf fieldName header \<in> (\<lambda>r. r ! columnOf fieldName header) ` set pre"
  then have p: "parse (newImporter env (header # pre) fieldName options) = Inr c"
    and len: "length row = length header"
    and seen: "row ! columnOf fieldName header \<in> (\<lambda>r. r ! columnOf fieldName header) ` set pre"
    by simp_all
  {
    assume "SkipErrDuplicateEmails \<notin> set options"
    then show "Import env (header # pre @ row # post) fieldName options =
           Inl (ParseError (length pre + 2) (columnOf fieldName header) ErrEmailDuplicate)"
      by (simp add: Import_def seen_row [OF p len seen])
  }
  {
    assume s: "SkipErrDuplicateEmails \<in> set options"
    let ?C = "advance (feed (c\<lparr>line := line c - 1\<rparr>) [row]) []"
    let ?c' = "?C\<lparr>line := line ?C + 1\<rparr>"
    from run_facts [OF p] have l: "line c = length pre + 2"
      by simp
    have "parse (newImporter env (header # pre @ [row]) fieldName options) = parse ?C"
      unfolding seen_row [OF p len seen] using s by (simp only: if_True)
    also have "parse ?C = Inr ?c'"
      by (simp add: parse_Nil)
    finally have "parse (newImporter env (header # pre @ [row]) fieldName options) = Inr ?c'" .
    moreover have "domainCounter ?c' = domainCounter c" "countedEmails ?c' = countedEmails c"
      "line ?c' = line c + 1"
      using l by (simp_all add: feed_def)
    ultimately show "\<exists>c'. parse (newImporter env (header # pre @ [row]) fieldName options) = Inr c' \<and>
               domainCounter c' = domainCounter c \<and> countedEmails c' = countedEmails c \<and>
               line c' = line c + 1"
      by blast
  }
next
  let ?k = "columnOf fieldName header"
  assume a: "fieldName \<in> set header \<and> length row = length header \<and> length row' = length header \<and>
    getDomainNameFromEmail (row ! ?k) = Inr d \<and> row' ! ?k = row ! ?k \<and>
    SkipErrDuplicateEmails \<in> set options"
  then have n: "fieldName \<in> set header" and len: "length row = length header"
    "length row' = length header" and e: "row' ! ?k = row ! ?k"
    and s: "SkipErrDuplicateEmails \<in> set options"
    and g: "getDomainNameFromEmail (row ! ?k) = Inr d"
    by simp_all
  from g have v: "IsValidEmail (row ! ?k)" and d: "domainOf (row ! ?k) = d"
    by (auto simp: getDomainNameFromEmail_eq split: if_splits)
  have "Import env [header, row] fieldName options =
          Inr (map (\<lambda>d. \<lparr>Domain = d,
                          EmailsCount = int (count_list (map (\<lambda>row. domainOf (row ! ?k)) [row]) d)\<rparr>)
                 (sorted_list_of_set ((\<lambda>row. domainOf (row ! ?k)) ` set [row])))"
    by (rule Import_valid_rows [OF n]) (use len v in simp_all)
  then have one: "Import env [header, row] fieldName options = Inr [\<lparr>Domain = d, EmailsCount = 1\<rparr>]"
    by (simp add: d)
  then obtain c where p: "parse (newImporter env (header # [row]) fieldName options) = Inr c"
    and r: "getResult c = Inr [\<lparr>Domain = d, EmailsCount = 1\<rparr>]"
    by (auto elim: Import_Inr)
  have seen: "row' ! ?k \<in> (\<lambda>r. r ! ?k) ` set [row]"
    by (simp add: e)
  let ?C = "advance (feed (c\<lparr>line := line c - 1\<rparr>) [row']) []"
  let ?c' = "?C\<lparr>line := line ?C + 1\<rparr>"
  have "parse (newImporter env (header # [row] @ row' # []) fieldName options) = parse ?C"
    unfolding seen_row [OF p len(2) seen] using s by (simp only: if_True)
  also have "parse ?C = Inr ?c'"
    by (simp add: parse_Nil)
  finally have p': "parse (newImporter env [header, row, row'] fieldName options) = Inr ?c'"
    by simp
  have "domainCounter ?c' = domainCounter c"
    by (simp add: feed_def)
  then have "getResult ?c' = Inr [\<lparr>Domain = d, EmailsCount = 1\<rparr>]"
    using r by (auto simp: getResult_def Let_def split: if_splits)
  with p' show "Import env [header, row, row'] fieldName options = Inr [\<lparr>Domain = d, EmailsCount = 1\<rparr>]"
    by (simp add: Import_def)
qed

theorem duplicate_email_witness:
  "parse (newImporter oneRecordPerLine [[''email''], [''mhernandez0@github.io'']] ''email'' []) =
     Inr (seenOnce False) \<and>
   parse (newImporter oneRecordPerLine [[''email''], [''mhernandez0@github.io'']] ''email''
            [SkipErrDuplicateEmails]) = Inr (seenOnce True) \<and>
   length [''mhernandez0@github.io''] = length [''email''] \<and>
   [''mhernandez0@github.io''] ! columnOf ''email'' [''email''] \<in>
     (\<lambda>r. r ! columnOf ''email'' [''email'']) ` set [[''mhernandez0@github.io'']] \<and>
   SkipErrDuplicateEmails \<notin> set [] \<and>
   Import oneRecordPerLine [[''email''], [''mhernandez0@github.io''], [''mhernandez0@github.io'']] ''email'' [] =
     Inl (ParseError 3 0 ErrEmailDuplicate) \<and>
   SkipErrDuplicateEmails \<in> set [SkipErrDuplicateEmails] \<and>
   (\<exists>c'. parse (newImporter oneRecordPerLine [[''email''], [''mhernandez0@github.io''], [''mhernandez0@github.io'']]
                  ''email'' [SkipErrDuplicateEmails]) = Inr c' \<and>
         domainCounter c' = domainCounter (seenOnce True) \<and>
         countedEmails c' = countedEmails (seenOnce True) \<and>
         line c' = line (seenOnce True) + 1) \<and>
   ''email'' \<in> set [''email''] \<and>
   getDomainNameFromEmail ([''mhernandez0@github.io''] ! columnOf ''email'' [''email'']) =
     Inr ''github.io'' \<and>
   Import oneRecordPerLine [[''email''], [''mhernandez0@github.io''], [''mhernandez0@github.io'']] ''email''
     [SkipErrDuplicateEmails] = Inr [\<lparr>Domain = ''github.io'', EmailsCount = 1\<rparr>]"
proof -
  let ?h = "[''email'']"
  let ?row = "[''mhernandez0@github.io'']"
  have k: "columnOf ''email'' ?h = 0"
    by (simp add: columnOf_def)
  have p: "parse (newImporter oneRecordPerLine [?h, ?row] ''email'' []) = Inr (seenOnce False)"
    "parse (newImporter oneRecordPerLine [?h, ?row] ''email'' [SkipErrDuplicateEmails]) = Inr (seenOnce True)"
    by (simp_all add: parse.simps newImporter_def NewReader_def oneRecordPerLine_def Read_def Let_def
        determineEmailColumnIndex_def updateDomainCounter_def handleDuplicates_def
        getDomainNameFromEmail_def IsValidEmail_def increment_def seenOnce_def)
  have len: "length ?row = length ?h"
    by simp
  have seen: "?row ! columnOf ''email'' ?h \<in> (\<lambda>r. r ! columnOf ''email'' ?h) ` set [?row]"
    by simp
  have off: "SkipErrDuplicateEmails \<notin> set []"
    and on: "SkipErrDuplicateEmails \<in> set [SkipErrDuplicateEmails]"
    and n: "''email'' \<in> set ?h"
    by simp_all
  have g: "getDomainNameFromEmail (?row ! columnOf ''email'' ?h) = Inr ''github.io''"
    by (simp add: k getDomainNameFromEmail_def IsValidEmail_def)
  from duplicate_email [of oneRecordPerLine ?h "[?row]" "''email''" "[]" "seenOnce False" ?row _ "[]",
      THEN conjunct1, THEN mp, OF conjI [OF p(1) conjI [OF len seen]],
      THEN conjunct1, THEN mp, OF off]
  have a: "Import oneRecordPerLine [?h, ?row, ?row] ''email'' [] = Inl (ParseError 3 0 ErrEmailDuplicate)"
    by (simp add: k)
  from duplicate_email [of oneRecordPerLine ?h "[?row]" "''email''" "[SkipErrDuplicateEmails]" "seenOnce True" ?row,
      THEN conjunct1, THEN mp, OF conjI [OF p(2) conjI [OF len seen]],
      THEN conjunct2, THEN mp, OF on]
  have b: "\<exists>c'. parse (newImporter oneRecordPerLine [?h, ?row, ?row] ''email'' [SkipErrDuplicateEmails]) = Inr c' \<and>
         domainCounter c' = domainCounter (seenOnce True) \<and>
         countedEmails c' = countedEmails (seenOnce True) \<and>
         line c' = line (seenOnce True) + 1"
    by simp
  from duplicate_email [of oneRecordPerLine ?h _ "''email''" "[SkipErrDuplicateEmails]" _ ?row _ ?row "''github.io''",
      THEN conjunct2, THEN mp, OF conjI [OF n conjI [OF len conjI [OF len conjI [OF g conjI [OF refl on]]]]]]
  have c: "Import oneRecordPerLine [?h, ?row, ?row] ''email'' [SkipErrDuplicateEmails] =
             Inr [\<lparr>Domain = ''github.io'', EmailsCount = 1\<rparr>]" .
  show ?thesis
    by (intro conjI p len seen off a on b n g c)
qed

subsection \<open>Line and column of an error\<close>

text \<open>
  Claim C9, amended. Every error of a run is a \<^verbatim>\<open>ParseError\<close> with a line and a column.
  An error that the importer raises carries the importer's counter of records read, which
  counts the header as 1, and the importer's e-mail column index: \<^verbatim>\<open>ErrEmptyFile\<close> and
  \<^verbatim>\<open>ErrFieldNotExists\<close> carry 1 and column 0, as no column is resolved yet;
  \<^verbatim>\<open>ErrEmailIsNotValid\<close> and \<^verbatim>\<open>ErrEmailDuplicate\<close> carry the number of the offending record
  (the data row of index \<open>k\<close>, counted from 0, is record \<open>k + 2\<close>) and the resolved column
  index; \<^verbatim>\<open>ErrNoValidEmailsFound\<close> carries the number after the last record and the resolved
  column index. The number of a record is its line in the file only when every record
  takes one line and no line is blank. The reader's \<^verbatim>\<open>ErrFieldCount\<close> is returned as the
  reader made it: it carries the physical line at which the offending record starts and
  the column that the library reports, not the resolved column index.
\<close>

theorem error_position:
  assumes "Import env r fieldName options = Inl e"
  shows "(r = [] \<and> e = ParseError 1 0 ErrEmptyFile) \<or>
         (\<exists>header rows. r = header # rows \<and>
            ((fieldName \<notin> set header \<and> e = ParseError 1 0 (ErrFieldNotExists fieldName)) \<or>
             (fieldName \<in> set header \<and>
                (\<exists>k<length rows.
                   (e = ParseError (startLine env (k + 1)) (fieldCountColumn env) ErrFieldCount \<and>
                      length (rows ! k) \<noteq> length header) \<or>
                   (e = ParseError (k + 2) (columnOf fieldName header) ErrEmailIsNotValid \<and>
                      SkipErrInvalidEmails \<notin> set options \<and>
                      \<not> IsValidEmail (rows ! k ! columnOf fieldName header)) \<or>
                   (e = ParseError (k + 2) (columnOf fieldName header) ErrEmailDuplicate \<and>
                      SkipErrDuplicateEmails \<notin> set options \<and>
                      rows ! k ! columnOf fieldName header \<in>
                        (\<lambda>row. row ! columnOf fieldName header) ` set (take k rows)))) \<or>
             (fieldName \<in> set header \<and>
                e = ParseError (length rows + 2) (columnOf fieldName header)
                      ErrNoValidEmailsFound)))"
proof (cases r)
  case Nil
  with assms show ?thesis
    by (simp add: Import_Nil)
next
  case (Cons header rows)
  show ?thesis
  proof (cases "fieldName \<in> set header")
    case False
    with assms Cons show ?thesis
      by (simp add: Import_no_field)
  next
    case True
    note i = Import_Inl [OF assms [unfolded Cons] True]
    show ?thesis
      unfolding Cons using True i by simp
  qed
qed

theorem error_position_witness:
  "Import oneRecordPerLine [[''first_name'', ''last_name'', ''email'', ''gender'', ''ip_address''],
           [''Mildred'', ''Hernandez'', ''mhernandezgithub.io'', ''Female'', ''38.194.51.128'']]
     ''email'' [] = Inl (ParseError 2 2 ErrEmailIsNotValid) \<and>
   columnOf ''email'' [''first_name'', ''last_name'', ''email'', ''gender'', ''ip_address''] = 2 \<and>
   \<not> IsValidEmail ''mhernandezgithub.io''"
proof -
  let ?h = "[''first_name'', ''last_name'', ''email'', ''gender'', ''ip_address'']"
  let ?row = "[''Mildred'', ''Hernandez'', ''mhernandezgithub.io'', ''Female'', ''38.194.51.128'']"
  have k: "columnOf ''email'' ?h = 2"
    by (simp add: columnOf_def)
  have v: "\<not> IsValidEmail ''mhernandezgithub.io''"
    by (simp add: IsValidEmail_def)
  have n: "''email'' \<in> set ?h"
    by simp
  obtain e where e: "Import oneRecordPerLine [?h, ?row] ''email'' [] = Inl e"
    by (simp add: Import_def newImporter_def NewReader_def oneRecordPerLine_def Read_def Let_def
        parse.simps determineEmailColumnIndex_def updateDomainCounter_def handleDuplicates_def
        getDomainNameFromEmail_def IsValidEmail_def)
  have d: "Import oneRecordPerLine [?h, ?row] ''email'' [] \<noteq>
             Inl (ParseError 3 2 ErrNoValidEmailsFound)"
    by (simp add: Import_def newImporter_def NewReader_def oneRecordPerLine_def Read_def Let_def
        parse.simps determineEmailColumnIndex_def updateDomainCounter_def handleDuplicates_def
        getDomainNameFromEmail_def IsValidEmail_def error_def)
  from error_position [OF e] n
  have "(\<exists>j<length [?row].
           (e = ParseError (startLine oneRecordPerLine (j + 1)) (fieldCountColumn oneRecordPerLine)
                  ErrFieldCount \<and>
              length ([?row] ! j) \<noteq> length ?h) \<or>
           (e = ParseError (j + 2) (columnOf ''email'' ?h) ErrEmailIsNotValid \<and>
              SkipErrInvalidEmails \<notin> set [] \<and>
              \<not> IsValidEmail ([?row] ! j ! columnOf ''email'' ?h)) \<or>
           (e = ParseError (j + 2) (columnOf ''email'' ?h) ErrEmailDuplicate \<and>
              SkipErrDuplicateEmails \<notin> set [] \<and>
              [?row] ! j ! columnOf ''email'' ?h \<in>
                (\<lambda>row. row ! columnOf ''email'' ?h) ` set (take j [?row]))) \<or>
         e = ParseError (length [?row] + 2) (columnOf ''email'' ?h) ErrNoValidEmailsFound"
    by simp
  with d e have "e = ParseError 2 2 ErrEmailIsNotValid"
    unfolding k by auto
  with e k v show ?thesis
    by (intro conjI) simp_all
qed

text \<open>
  The claim as the spec has it fails in both of its parts. In a file whose second line is
  blank, an invalid address on line 3 is reported at line 2, the number of its record.
  And with the e-mail column resolved to index 2, a row of two fields is reported at the
  reader's column, 1 or 0 with the version of the library.
\<close>

theorem error_position_counterexample:
  "Import blankSecondLine [[''email''], [''mhernandezgithub.io'']] ''email'' [] =
     Inl (ParseError 2 0 ErrEmailIsNotValid) \<and>
   startLine blankSecondLine 1 = 3 \<and>
   Import oneRecordPerLine
     [[''first_name'', ''last_name'', ''email'', ''gender'', ''ip_address''],
      [''Mildred'', ''Hernandez'']] ''email'' [] = Inl (ParseError 2 1 ErrFieldCount) \<and>
   Import oneRecordPerLineOld
     [[''first_name'', ''last_name'', ''email'', ''gender'', ''ip_address''],
      [''Mildred'', ''Hernandez'']] ''email'' [] = Inl (ParseError 2 0 ErrFieldCount) \<and>
   emailColumnIndex
     (afterHeader oneRecordPerLine [''first_name'', ''last_name'', ''email'', ''gender'', ''ip_address'']
        [[''Mildred'', ''Hernandez'']] ''email'' []) = 2"
  by (simp add: Import_def newImporter_def NewReader_def oneRecordPerLine_def
      oneRecordPerLineOld_def blankSecondLine_def Read_def Let_def parse.simps
      determineEmailColumnIndex_def updateDomainCounter_def handleDuplicates_def
      getDomainNameFromEmail_def IsValidEmail_def error_def afterHeader_def columnOf_def)

subsection \<open>An invalid address that is skipped\<close>

text \<open>
  Claim C3. The claim says that a row with an invalid address, skipped under
  \<^verbatim>\<open>SkipErrInvalidEmails\<close>, leaves the set of seen addresses unchanged. The code does
  otherwise: \<^verbatim>\<open>handleDuplicates\<close> records the address in \<^verbatim>\<open>countedEmails\<close> before the
  address is validated, so the skipped row changes that map, and a second row with the
  same invalid address makes the run fail with \<^verbatim>\<open>ErrEmailDuplicate\<close>. The theorem evaluates
  the code at such an input.
\<close>

theorem invalid_email_marked_seen:
  "updateDomainCounter (exampleImporter\<lparr>skipErrInvalidEmails := True\<rparr>) [''mhernandezgithub.io''] =
     Inr (exampleImporter\<lparr>skipErrInvalidEmails := True,
                          countedEmails := [''mhernandezgithub.io'' \<mapsto> True]\<rparr>) \<and>
   countedEmails exampleImporter = Map.empty \<and>
   Import oneRecordPerLine [[''email''], [''mhernandezgithub.io''], [''mhernandezgithub.io'']] ''email''
     [SkipErrInvalidEmails] = Inl (ParseError 3 0 ErrEmailDuplicate)"
  by (simp add: Import_def newImporter_def NewReader_def oneRecordPerLine_def Read_def Let_def parse.simps
      determineEmailColumnIndex_def updateDomainCounter_def handleDuplicates_def
      getDomainNameFromEmail_def IsValidEmail_def error_def exampleImporter_def)

end
